theory Spec2Isabelle
  imports Complex_Main "HOL-Library.Signed_Division"
begin

section \<open>The host: what the functions read besides their arguments\<close>

text \<open>
  The functions of \<^verbatim>\<open>core-js-dates-tasks.js\<close> are written against the ECMAScript
  \<^verbatim>\<open>Date\<close> object. Three things the built-ins read are not arguments of any function
  of the file; they are fields of the host:
  \<^item> \<open>LocalTZA\<close>: the offset of local time from UTC, in milliseconds (positive east of
    Greenwich), as ECMAScript's \<^verbatim>\<open>LocalTZA(t, isUTC)\<close> gives it: for a time value
    \<open>t\<close> when \<open>isUTC\<close> is true, for a local time \<open>t\<close> when it is false. The offset of
    a host with daylight-saving time depends on \<open>t\<close>.
  \<^item> \<open>parseOther\<close>: what \<^verbatim>\<open>Date.parse\<close> answers for a string that is not in the
    full ISO form \<^verbatim>\<open>YYYY-MM-DDTHH:mm:ss.sssZ\<close>. ECMAScript leaves these strings to the
    implementation; \<open>None\<close> is NaN.
  \<^item> \<open>localeTimeString\<close>: what \<^verbatim>\<open>toLocaleTimeString()\<close> prints for a time value.
\<close>

record host =
  LocalTZA :: "int \<Rightarrow> bool \<Rightarrow> int"
  parseOther :: "string \<Rightarrow> int option"
  localeTimeString :: "int \<Rightarrow> string"

text \<open>
  The hosts the functions are evaluated on. \<open>host_at tza\<close> keeps one offset for ever,
  \<open>utc_host\<close> is the one at offset 0, and \<open>host_changing tza1 change tza2\<close> has the
  offset \<open>tza1\<close> before the instant \<open>change\<close> and \<open>tza2\<close> from it on: one
  daylight-saving change. A local time that the change skips or repeats is read with the
  offset before the change, as ECMAScript asks.

  The \<^verbatim>\<open>Date.parse\<close> of these three reads the ISO form and nothing else, which
  ECMAScript allows and no engine does: they are hosts for the functions that take a
  \<^verbatim>\<open>Date\<close>, a period or an ISO string, whose results do not depend on \<open>parseOther\<close>
  (lemmas \<open>getWorkSchedule_host\<close>, \<open>getNextFriday_host\<close>, \<open>getNextFridayThe13th_host\<close>,
  \<open>Date_parse_ISO\<close>). \<open>host_parsing table\<close> is a host at offset 0 whose
  \<^verbatim>\<open>Date.parse\<close> reads, besides the ISO form, the strings of a table. What is proved of
  a string in another format is proved for every host.
\<close>

definition utc_host :: host where
  "utc_host = \<lparr>LocalTZA = (\<lambda>t isUTC. 0), parseOther = (\<lambda>s. None),
                localeTimeString = (\<lambda>t. [])\<rparr>"

definition host_at :: "int \<Rightarrow> host" where
  "host_at tza = \<lparr>LocalTZA = (\<lambda>t isUTC. tza), parseOther = (\<lambda>s. None),
                   localeTimeString = (\<lambda>t. [])\<rparr>"

definition host_parsing :: "(string \<times> int) list \<Rightarrow> host" where
  "host_parsing table = \<lparr>LocalTZA = (\<lambda>t isUTC. 0), parseOther = map_of table,
                           localeTimeString = (\<lambda>t. [])\<rparr>"

definition host_changing :: "int \<Rightarrow> int \<Rightarrow> int \<Rightarrow> host" where
  "host_changing tza1 change tza2 =
     \<lparr>LocalTZA = (\<lambda>t isUTC. if isUTC then (if t < change then tza1 else tza2)
                             else (if t < change + max tza1 tza2 then tza1 else tza2)),
      parseOther = (\<lambda>s. None), localeTimeString = (\<lambda>t. [])\<rparr>"

section \<open>Numbers\<close>

text \<open>
  Every number the functions compute with is an integer or NaN: time values, calendar
  fields, counters. A number is an \<open>int option\<close>, \<open>None\<close> being NaN; arithmetic
  propagates NaN, every ordering comparison with NaN is false, \<^verbatim>\<open>===\<close> with NaN is false
  and \<^verbatim>\<open>!==\<close> with NaN is true.

  The numbers that need not be integers are rationals: the value of a numeric string
  (\<open>StringToNumber\<close>) and the two quotients the source does not round
  (\<open>getCountDaysInMonth\<close>, \<open>getCountDaysOnPeriod\<close>). They are exact here, where the
  source has the double nearest to them.
\<close>

type_synonym number = "int option"

abbreviation NaN :: number where
  "NaN \<equiv> None"

definition num_add :: "number \<Rightarrow> number \<Rightarrow> number" where
  "num_add a b = (case a of None \<Rightarrow> None | Some x \<Rightarrow> (case b of None \<Rightarrow> None | Some y \<Rightarrow> Some (x + y)))"

definition num_sub :: "number \<Rightarrow> number \<Rightarrow> number" where
  "num_sub a b = (case a of None \<Rightarrow> None | Some x \<Rightarrow> (case b of None \<Rightarrow> None | Some y \<Rightarrow> Some (x - y)))"

text \<open>The remainder \<^verbatim>\<open>a % b\<close> takes the sign of the dividend; \<^verbatim>\<open>a % 0\<close> is NaN.\<close>

definition num_rem :: "number \<Rightarrow> number \<Rightarrow> number" where
  "num_rem a b =
     (case a of None \<Rightarrow> None
      | Some x \<Rightarrow> (case b of None \<Rightarrow> None | Some y \<Rightarrow> if y = 0 then None else Some (x smod y)))"

definition num_lt :: "number \<Rightarrow> number \<Rightarrow> bool" where
  "num_lt a b = (case a of None \<Rightarrow> False | Some x \<Rightarrow> (case b of None \<Rightarrow> False | Some y \<Rightarrow> x < y))"

definition num_le :: "number \<Rightarrow> number \<Rightarrow> bool" where
  "num_le a b = (case a of None \<Rightarrow> False | Some x \<Rightarrow> (case b of None \<Rightarrow> False | Some y \<Rightarrow> x \<le> y))"

definition num_gt :: "number \<Rightarrow> number \<Rightarrow> bool" where
  "num_gt a b = num_lt b a"

definition num_ge :: "number \<Rightarrow> number \<Rightarrow> bool" where
  "num_ge a b = num_le b a"

definition strict_eq :: "number \<Rightarrow> number \<Rightarrow> bool" where
  "strict_eq a b = (case a of None \<Rightarrow> False | Some x \<Rightarrow> (case b of None \<Rightarrow> False | Some y \<Rightarrow> x = y))"

definition strict_neq :: "number \<Rightarrow> number \<Rightarrow> bool" where
  "strict_neq a b = (if strict_eq a b then False else True)"

text \<open>
  \<^verbatim>\<open>Math.ceil(a / b)\<close> and \<^verbatim>\<open>Math.floor(a / b)\<close> for an integer \<open>a\<close> and a positive
  integer constant \<open>b\<close> (\<open>msPerDay\<close>, 7, 3 in the source). The double quotient of an
  integer below \<open>2^53\<close> by one of these constants rounds to the same integer as the exact
  quotient, so the integer quotient is what the source computes.
\<close>

definition Math_ceil_div :: "number \<Rightarrow> int \<Rightarrow> number" where
  "Math_ceil_div a b = (case a of None \<Rightarrow> None | Some x \<Rightarrow> Some (- ((- x) div b)))"

definition Math_floor_div :: "number \<Rightarrow> int \<Rightarrow> number" where
  "Math_floor_div a b = (case a of None \<Rightarrow> None | Some x \<Rightarrow> Some (x div b))"

text \<open>
  The \<^verbatim>\<open>-\<close> of two numbers that need not be integers, and ECMAScript's
  \<open>ToIntegerOrInfinity\<close>, which drops the fraction of a number.
\<close>

definition real_sub :: "rat option \<Rightarrow> rat option \<Rightarrow> rat option" where
  "real_sub a b = (case a of None \<Rightarrow> None | Some x \<Rightarrow> (case b of None \<Rightarrow> None | Some y \<Rightarrow> Some (x - y)))"

definition ToIntegerOrInfinity :: "rat \<Rightarrow> int" where
  "ToIntegerOrInfinity q = (if q < 0 then - \<lfloor>- q\<rfloor> else \<lfloor>q\<rfloor>)"

section \<open>Strings\<close>

text \<open>\<^verbatim>\<open>String(n)\<close> of an integer or NaN, as a template literal prints it.\<close>

definition digit_char :: "nat \<Rightarrow> char" where
  "digit_char n = ''0123456789'' ! n"

fun digits :: "nat \<Rightarrow> string" where
  "digits n = (if n < 10 then [digit_char n] else digits (n div 10) @ [digit_char (n mod 10)])"

declare digits.simps [simp del]

definition NumberToString :: "number \<Rightarrow> string" where
  "NumberToString a =
     (case a of None \<Rightarrow> ''NaN''
      | Some x \<Rightarrow> if x < 0 then CHR ''-'' # digits (nat (- x)) else digits (nat x))"

text \<open>A string of decimal digits, read as an integer; \<open>None\<close> when a character is no digit.\<close>

definition digit_value :: "char \<Rightarrow> int option" where
  "digit_value c = map_of (zip ''0123456789'' [0, 1, 2, 3, 4, 5, 6, 7, 8, 9]) c"

fun decimal_from :: "int \<Rightarrow> string \<Rightarrow> number" where
  "decimal_from acc [] = Some acc"
| "decimal_from acc (c # cs) =
     (case digit_value c of None \<Rightarrow> None | Some d \<Rightarrow> decimal_from (10 * acc + d) cs)"

text \<open>
  \<^verbatim>\<open>Number(s)\<close> of a string: ECMAScript's \<open>StringToNumber\<close>. White space around
  the literal is dropped; the empty string is 0; a literal is a radix prefix
  (\<^verbatim>\<open>0x\<close>, \<^verbatim>\<open>0o\<close>, \<^verbatim>\<open>0b\<close>) and digits of that radix, or an optional sign and a
  decimal literal: digits with an optional fraction part and an optional exponent part.
  The result is the exact value of the literal, \<open>None\<close> when the string is no literal
  (NaN) or is \<^verbatim>\<open>Infinity\<close> with an optional sign: a \<^verbatim>\<open>Date\<close> built from either is
  invalid. A string here is a list of 8-bit characters, so the white space is the white
  space and the line terminators of ECMAScript below U+0100.
\<close>

definition StrWhiteSpaceChar :: "char \<Rightarrow> bool" where
  "StrWhiteSpaceChar c =
     (c \<in> set [CHR 0x09, CHR 0x0A, CHR 0x0B, CHR 0x0C, CHR 0x0D, CHR 0x20, CHR 0xA0])"

definition trim :: "string \<Rightarrow> string" where
  "trim s = rev (dropWhile StrWhiteSpaceChar (rev (dropWhile StrWhiteSpaceChar s)))"

definition radix_digit :: "char \<Rightarrow> int option" where
  "radix_digit c =
     map_of (zip ''0123456789abcdefABCDEF''
               [0, 1, 2, 3, 4, 5, 6, 7, 8, 9, 10, 11, 12, 13, 14, 15, 10, 11, 12, 13, 14, 15]) c"

fun radix_from :: "int \<Rightarrow> int \<Rightarrow> string \<Rightarrow> int option" where
  "radix_from r acc [] = Some acc"
| "radix_from r acc (c # cs) =
     (case radix_digit c of None \<Rightarrow> None
      | Some d \<Rightarrow> if d < r then radix_from r (r * acc + d) cs else None)"

definition radix_prefix :: "string \<Rightarrow> int option" where
  "radix_prefix p = map_of (zip [''0x'', ''0X'', ''0o'', ''0O'', ''0b'', ''0B''] [16, 16, 8, 8, 2, 2]) p"

definition SignedInteger :: "string \<Rightarrow> int option" where
  "SignedInteger s =
     (case s of [] \<Rightarrow> None
      | c # cs \<Rightarrow>
          if c = CHR ''+'' then (if cs = [] then None else decimal_from 0 cs)
          else if c = CHR ''-'' then (if cs = [] then None else map_option uminus (decimal_from 0 cs))
          else decimal_from 0 s)"

definition mantissa :: "string \<Rightarrow> rat option" where
  "mantissa s =
     (let whole = takeWhile (\<lambda>c. c \<noteq> CHR ''.'') s;
          rest = dropWhile (\<lambda>c. c \<noteq> CHR ''.'') s
      in case rest of
           [] \<Rightarrow> if whole = [] then None else map_option of_int (decimal_from 0 whole)
         | dot # fraction \<Rightarrow>
             if whole = [] \<and> fraction = [] then None
             else (case decimal_from 0 whole of None \<Rightarrow> None
                   | Some i \<Rightarrow>
                       (case decimal_from 0 fraction of None \<Rightarrow> None
                        | Some f \<Rightarrow> Some (of_int i + of_int f / 10 ^ length fraction))))"

definition StrUnsignedDecimalLiteral :: "string \<Rightarrow> rat option" where
  "StrUnsignedDecimalLiteral s =
     (let m = takeWhile (\<lambda>c. c \<noteq> CHR ''e'' \<and> c \<noteq> CHR ''E'') s;
          rest = dropWhile (\<lambda>c. c \<noteq> CHR ''e'' \<and> c \<noteq> CHR ''E'') s
      in case rest of
           [] \<Rightarrow> mantissa m
         | e # exponent \<Rightarrow>
             (case mantissa m of None \<Rightarrow> None
              | Some q \<Rightarrow>
                  (case SignedInteger exponent of None \<Rightarrow> None
                   | Some k \<Rightarrow> Some (if 0 \<le> k then q * 10 ^ nat k else q / 10 ^ nat (- k)))))"

definition StringToNumber :: "string \<Rightarrow> rat option" where
  "StringToNumber s =
     (let t = trim s
      in if t = [] then Some 0
         else (case radix_prefix (take 2 t) of
                 Some r \<Rightarrow> if drop 2 t = [] then None
                            else map_option of_int (radix_from r 0 (drop 2 t))
               | None \<Rightarrow>
                   if hd t = CHR ''+'' then StrUnsignedDecimalLiteral (tl t)
                   else if hd t = CHR ''-'' then map_option uminus (StrUnsignedDecimalLiteral (tl t))
                   else StrUnsignedDecimalLiteral t))"

text \<open>\<^verbatim>\<open>s.split(c)\<close> for a one-character separator.\<close>

fun split :: "char \<Rightarrow> string \<Rightarrow> string list" where
  "split c [] = [[]]"
| "split c (x # xs) =
     (if x = c then [] # split c xs
      else (case split c xs of [] \<Rightarrow> [[x]] | p # ps \<Rightarrow> (x # p) # ps))"

text \<open>
  An element of an array by index, \<open>None\<close> being \<^verbatim>\<open>undefined\<close>; \<^verbatim>\<open>Number(undefined)\<close>
  is NaN.
\<close>

definition element :: "'a list \<Rightarrow> nat \<Rightarrow> 'a option" where
  "element xs i = (if i < length xs then Some (xs ! i) else None)"

definition ToNumber :: "string option \<Rightarrow> rat option" where
  "ToNumber v = (case v of None \<Rightarrow> None | Some s \<Rightarrow> StringToNumber s)"

section \<open>Time values: the date arithmetic of ECMAScript\<close>

definition msPerDay :: int where
  "msPerDay = 86400000"

definition msPerHour :: int where
  "msPerHour = 3600000"

definition msPerMinute :: int where
  "msPerMinute = 60000"

definition msPerSecond :: int where
  "msPerSecond = 1000"

definition Day :: "int \<Rightarrow> int" where
  "Day t = t div msPerDay"

definition TimeWithinDay :: "int \<Rightarrow> int" where
  "TimeWithinDay t = t mod msPerDay"

definition DaysInYear :: "int \<Rightarrow> int" where
  "DaysInYear y =
     (if y mod 4 \<noteq> 0 then 365
      else if y mod 100 \<noteq> 0 then 366
      else if y mod 400 \<noteq> 0 then 365
      else 366)"

definition DayFromYear :: "int \<Rightarrow> int" where
  "DayFromYear y =
     365 * (y - 1970) + (y - 1969) div 4 - (y - 1901) div 100 + (y - 1601) div 400"

text \<open>
  ECMAScript specifies \<open>YearFromTime t\<close> as the largest \<open>y\<close> with
  \<open>msPerDay * DayFromYear y \<le> t\<close>. It is computed from the mean length of a year
  (146097 days in 400 years), which is off by at most one year; lemma
  \<open>YearFromDay_bounds\<close> shows the result is the specified year.
\<close>

definition YearFromDay :: "int \<Rightarrow> int" where
  "YearFromDay d =
     (let y = 1970 + (400 * d) div 146097
      in if DayFromYear (y + 1) \<le> d then y + 1
         else if DayFromYear y \<le> d then y
         else y - 1)"

definition YearFromTime :: "int \<Rightarrow> int" where
  "YearFromTime t = YearFromDay (Day t)"

definition InLeapYear :: "int \<Rightarrow> int" where
  "InLeapYear t = (if DaysInYear (YearFromTime t) = 365 then 0 else 1)"

definition DayWithinYear :: "int \<Rightarrow> int" where
  "DayWithinYear t = Day t - DayFromYear (YearFromTime t)"

definition MonthFromTime :: "int \<Rightarrow> int" where
  "MonthFromTime t =
     (let d = DayWithinYear t; l = InLeapYear t
      in if d < 31 then 0
         else if d < 59 + l then 1
         else if d < 90 + l then 2
         else if d < 120 + l then 3
         else if d < 151 + l then 4
         else if d < 181 + l then 5
         else if d < 212 + l then 6
         else if d < 243 + l then 7
         else if d < 273 + l then 8
         else if d < 304 + l then 9
         else if d < 334 + l then 10
         else 11)"

definition DateFromTime :: "int \<Rightarrow> int" where
  "DateFromTime t =
     (let d = DayWithinYear t; l = InLeapYear t; m = MonthFromTime t
      in if m = 0 then d + 1
         else if m = 1 then d - 30
         else if m = 2 then d - 58 - l
         else if m = 3 then d - 89 - l
         else if m = 4 then d - 119 - l
         else if m = 5 then d - 150 - l
         else if m = 6 then d - 180 - l
         else if m = 7 then d - 211 - l
         else if m = 8 then d - 242 - l
         else if m = 9 then d - 272 - l
         else if m = 10 then d - 303 - l
         else d - 333 - l)"

definition WeekDay :: "int \<Rightarrow> int" where
  "WeekDay t = (Day t + 4) mod 7"

definition HourFromTime :: "int \<Rightarrow> int" where
  "HourFromTime t = (t div msPerHour) mod 24"

definition MinFromTime :: "int \<Rightarrow> int" where
  "MinFromTime t = (t div msPerMinute) mod 60"

definition SecFromTime :: "int \<Rightarrow> int" where
  "SecFromTime t = (t div msPerSecond) mod 60"

definition MakeTime :: "int \<Rightarrow> int \<Rightarrow> int \<Rightarrow> int \<Rightarrow> int" where
  "MakeTime hour minute sec ms = hour * msPerHour + minute * msPerMinute + sec * msPerSecond + ms"

text \<open>
  \<open>DayFromMonth m l\<close>: the day within the year on which month \<open>m\<close> (0 to 11) starts, in a
  year with \<open>l\<close> leap days. \<open>MakeDay\<close> carries a month outside 0 to 11 into the year, as
  ECMAScript does, so \<^verbatim>\<open>setMonth(12, 13)\<close> is 13 January of the next year.
\<close>

definition DayFromMonth :: "int \<Rightarrow> int \<Rightarrow> int" where
  "DayFromMonth m l =
     (if m = 0 then 0
      else if m = 1 then 31
      else if m = 2 then 59 + l
      else if m = 3 then 90 + l
      else if m = 4 then 120 + l
      else if m = 5 then 151 + l
      else if m = 6 then 181 + l
      else if m = 7 then 212 + l
      else if m = 8 then 243 + l
      else if m = 9 then 273 + l
      else if m = 10 then 304 + l
      else 334 + l)"

definition MakeDay :: "int \<Rightarrow> int \<Rightarrow> int \<Rightarrow> int" where
  "MakeDay year month date =
     (let ym = year + month div 12; mn = month mod 12
      in DayFromYear ym + DayFromMonth mn (if DaysInYear ym = 365 then 0 else 1) + date - 1)"

definition MakeDate :: "int \<Rightarrow> int \<Rightarrow> int" where
  "MakeDate day time = day * msPerDay + time"

definition TimeClip :: "int \<Rightarrow> number" where
  "TimeClip t = (if \<bar>t\<bar> > 8640000000000000 then NaN else Some t)"

text \<open>
  \<open>LocalTime\<close> takes a time value to local time and \<open>UTC\<close> a local time back, each
  with the offset the host has there.
\<close>

definition LocalTime :: "host \<Rightarrow> int \<Rightarrow> int" where
  "LocalTime H t = t + LocalTZA H t True"

definition UTC :: "host \<Rightarrow> int \<Rightarrow> int" where
  "UTC H t = t - LocalTZA H t False"

section \<open>Date objects\<close>

text \<open>
  A \<^verbatim>\<open>Date\<close> object holds one number, its time value: milliseconds since
  1970-01-01T00:00:00 UTC, or NaN (an invalid date). The methods are given on the time
  value; a setter returns the new time value of the object. Getters and setters without
  \<^verbatim>\<open>UTC\<close> in their name work on local time, \<open>LocalTime H t\<close>.
\<close>

definition DaysInMonth :: "int \<Rightarrow> int \<Rightarrow> int" where
  "DaysInMonth y m =
     (if m = 2 then (if DaysInYear y = 365 then 28 else 29)
      else if m = 4 then 30 else if m = 6 then 30 else if m = 9 then 30 else if m = 11 then 30
      else 31)"

text \<open>
  \<^verbatim>\<open>Date.parse\<close>. The ISO form \<^verbatim>\<open>YYYY-MM-DDTHH:mm:ss.sssZ\<close> with every field in
  range is read here; every other string is the host's (\<open>parseOther\<close>).
\<close>

definition parseISO :: "string \<Rightarrow> number" where
  "parseISO s =
     (if length s = 24 \<and> s ! 4 = CHR ''-'' \<and> s ! 7 = CHR ''-'' \<and> s ! 10 = CHR ''T''
         \<and> s ! 13 = CHR '':'' \<and> s ! 16 = CHR '':'' \<and> s ! 19 = CHR ''.'' \<and> s ! 23 = CHR ''Z''
      then
        (case decimal_from 0 (take 4 s) of None \<Rightarrow> NaN | Some y \<Rightarrow>
        (case decimal_from 0 (take 2 (drop 5 s)) of None \<Rightarrow> NaN | Some mo \<Rightarrow>
        (case decimal_from 0 (take 2 (drop 8 s)) of None \<Rightarrow> NaN | Some d \<Rightarrow>
        (case decimal_from 0 (take 2 (drop 11 s)) of None \<Rightarrow> NaN | Some h \<Rightarrow>
        (case decimal_from 0 (take 2 (drop 14 s)) of None \<Rightarrow> NaN | Some mi \<Rightarrow>
        (case decimal_from 0 (take 2 (drop 17 s)) of None \<Rightarrow> NaN | Some sec \<Rightarrow>
        (case decimal_from 0 (take 3 (drop 20 s)) of None \<Rightarrow> NaN | Some ms \<Rightarrow>
           if 1 \<le> mo \<and> mo \<le> 12 \<and> 1 \<le> d \<and> d \<le> DaysInMonth y mo
              \<and> h \<le> 23 \<and> mi \<le> 59 \<and> sec \<le> 59
           then TimeClip (MakeDate (MakeDay y (mo - 1) d) (MakeTime h mi sec ms))
           else NaN)))))))
      else NaN)"

definition Date_parse :: "host \<Rightarrow> string \<Rightarrow> number" where
  "Date_parse H s =
     (case parseISO s of
        Some t \<Rightarrow> Some t
      | None \<Rightarrow> (case parseOther H s of None \<Rightarrow> NaN | Some t \<Rightarrow> TimeClip t))"

text \<open>\<^verbatim>\<open>new Date(value)\<close> for a number, a string and another \<^verbatim>\<open>Date\<close>.\<close>

definition new_Date_number :: "number \<Rightarrow> number" where
  "new_Date_number v = (case v of None \<Rightarrow> NaN | Some t \<Rightarrow> TimeClip t)"

definition new_Date_string :: "host \<Rightarrow> string \<Rightarrow> number" where
  "new_Date_string H s = new_Date_number (Date_parse H s)"

definition new_Date_copy :: "number \<Rightarrow> number" where
  "new_Date_copy tv = new_Date_number tv"

text \<open>
  \<^verbatim>\<open>new Date(year, month, date)\<close>: local midnight of the day. The arguments are
  numbers that need not be integers; their fractions are dropped, and a year from 0 to 99
  is 1900 plus the year. With two arguments the date is 1.
\<close>

definition new_Date_local :: "host \<Rightarrow> rat option \<Rightarrow> rat option \<Rightarrow> rat option \<Rightarrow> number" where
  "new_Date_local H year month date =
     (case year of None \<Rightarrow> NaN | Some y \<Rightarrow>
     (case month of None \<Rightarrow> NaN | Some m \<Rightarrow>
     (case date of None \<Rightarrow> NaN | Some dt \<Rightarrow>
        (let yi = ToIntegerOrInfinity y;
             yr = (if 0 \<le> yi \<and> yi \<le> 99 then 1900 + yi else yi)
         in TimeClip (UTC H (MakeDate (MakeDay yr (ToIntegerOrInfinity m) (ToIntegerOrInfinity dt))
                                      (MakeTime 0 0 0 0)))))))"

definition getUTCFullYear :: "number \<Rightarrow> number" where
  "getUTCFullYear tv = map_option YearFromTime tv"

definition getUTCMonth :: "number \<Rightarrow> number" where
  "getUTCMonth tv = map_option MonthFromTime tv"

definition getUTCDate :: "number \<Rightarrow> number" where
  "getUTCDate tv = map_option DateFromTime tv"

definition getUTCDay :: "number \<Rightarrow> number" where
  "getUTCDay tv = map_option WeekDay tv"

definition getUTCHours :: "number \<Rightarrow> number" where
  "getUTCHours tv = map_option HourFromTime tv"

definition getUTCMinutes :: "number \<Rightarrow> number" where
  "getUTCMinutes tv = map_option MinFromTime tv"

definition getUTCSeconds :: "number \<Rightarrow> number" where
  "getUTCSeconds tv = map_option SecFromTime tv"

definition getFullYear :: "host \<Rightarrow> number \<Rightarrow> number" where
  "getFullYear H tv = map_option (\<lambda>t. YearFromTime (LocalTime H t)) tv"

definition getMonth :: "host \<Rightarrow> number \<Rightarrow> number" where
  "getMonth H tv = map_option (\<lambda>t. MonthFromTime (LocalTime H t)) tv"

definition getDate :: "host \<Rightarrow> number \<Rightarrow> number" where
  "getDate H tv = map_option (\<lambda>t. DateFromTime (LocalTime H t)) tv"

definition getDay :: "host \<Rightarrow> number \<Rightarrow> number" where
  "getDay H tv = map_option (\<lambda>t. WeekDay (LocalTime H t)) tv"

definition setUTCDate :: "number \<Rightarrow> number \<Rightarrow> number" where
  "setUTCDate tv date =
     (case tv of None \<Rightarrow> NaN | Some t \<Rightarrow>
     (case date of None \<Rightarrow> NaN | Some dt \<Rightarrow>
        TimeClip (MakeDate (MakeDay (YearFromTime t) (MonthFromTime t) dt) (TimeWithinDay t))))"

definition setDate :: "host \<Rightarrow> number \<Rightarrow> number \<Rightarrow> number" where
  "setDate H tv date =
     (case tv of None \<Rightarrow> NaN | Some t0 \<Rightarrow>
     (case date of None \<Rightarrow> NaN | Some dt \<Rightarrow>
        (let t = LocalTime H t0
         in TimeClip (UTC H (MakeDate (MakeDay (YearFromTime t) (MonthFromTime t) dt)
                                      (TimeWithinDay t))))))"

text \<open>
  \<^verbatim>\<open>setUTCMonth(month)\<close> keeps the day of the month; \<^verbatim>\<open>setUTCMonth(month, date)\<close> and
  \<^verbatim>\<open>setMonth(month, date)\<close> set both.
\<close>

definition setUTCMonth1 :: "number \<Rightarrow> number \<Rightarrow> number" where
  "setUTCMonth1 tv month =
     (case tv of None \<Rightarrow> NaN | Some t \<Rightarrow>
     (case month of None \<Rightarrow> NaN | Some m \<Rightarrow>
        TimeClip (MakeDate (MakeDay (YearFromTime t) m (DateFromTime t)) (TimeWithinDay t))))"

definition setUTCMonth2 :: "number \<Rightarrow> number \<Rightarrow> number \<Rightarrow> number" where
  "setUTCMonth2 tv month date =
     (case tv of None \<Rightarrow> NaN | Some t \<Rightarrow>
     (case month of None \<Rightarrow> NaN | Some m \<Rightarrow>
     (case date of None \<Rightarrow> NaN | Some dt \<Rightarrow>
        TimeClip (MakeDate (MakeDay (YearFromTime t) m dt) (TimeWithinDay t)))))"

definition setMonth2 :: "host \<Rightarrow> number \<Rightarrow> number \<Rightarrow> number \<Rightarrow> number" where
  "setMonth2 H tv month date =
     (case tv of None \<Rightarrow> NaN | Some t0 \<Rightarrow>
     (case month of None \<Rightarrow> NaN | Some m \<Rightarrow>
     (case date of None \<Rightarrow> NaN | Some dt \<Rightarrow>
        (let t = LocalTime H t0
         in TimeClip (UTC H (MakeDate (MakeDay (YearFromTime t) m dt) (TimeWithinDay t)))))))"

text \<open>
  The \<^verbatim>\<open>Date\<close> objects a caller passes in live in a heap: a list of time values, an
  object being its index. \<^verbatim>\<open>new Date(...)\<close> appends an object; a setter overwrites the
  time value at the object's index. A function that takes a \<^verbatim>\<open>Date\<close> takes the heap
  and returns it with its result, so that what it does to its argument can be read off.
\<close>

type_synonym heap = "number list"

type_synonym ref = nat

section \<open>The functions of core-js-dates-tasks.js\<close>

subsection \<open>dateToTimestamp, getTime, getDayName\<close>

text \<open>\<^verbatim>\<open>Number(new Date(date))\<close>: the time value of the date parsed.\<close>

definition dateToTimestamp :: "host \<Rightarrow> string \<Rightarrow> number" where
  "dateToTimestamp H date = new_Date_string H date"

text \<open>\<^verbatim>\<open>toLocaleTimeString()\<close> of an invalid date is the string \<^verbatim>\<open>Invalid Date\<close>.\<close>

definition getTime :: "host \<Rightarrow> heap \<Rightarrow> ref \<Rightarrow> string \<times> heap" where
  "getTime H h date =
     ((case h ! date of None \<Rightarrow> ''Invalid Date'' | Some t \<Rightarrow> localeTimeString H t), h)"

definition weekDays :: "string list" where
  "weekDays =
     [''Sunday'', ''Monday'', ''Tuesday'', ''Wednesday'', ''Thursday'', ''Friday'', ''Saturday'']"

text \<open>\<open>None\<close> is \<^verbatim>\<open>undefined\<close>: what \<^verbatim>\<open>weekDays[NaN]\<close> is.\<close>

definition getDayName :: "host \<Rightarrow> string \<Rightarrow> string option" where
  "getDayName H date =
     (let dateObj = new_Date_number (Date_parse H date)
      in case getUTCDay dateObj of None \<Rightarrow> None | Some i \<Rightarrow> element weekDays (nat i))"

subsection \<open>getNextFriday\<close>

text \<open>The setter is called on the argument itself, and the argument is what is returned.\<close>

definition getNextFriday :: "host \<Rightarrow> heap \<Rightarrow> ref \<Rightarrow> ref \<times> heap" where
  "getNextFriday H h date =
     (let weekDay = getUTCDay (h ! date);
          diff = (if num_lt weekDay (Some 5) then num_sub (Some 5) weekDay
                  else num_add (num_sub (Some 7) weekDay) (Some 5));
          h' = h[date := setDate H (h ! date) (num_add (getDate H (h ! date)) diff)]
      in (date, h'))"

subsection \<open>getCountDaysInMonth, getCountDaysOnPeriod, isDateInPeriod\<close>

definition getCountDaysInMonth :: "host \<Rightarrow> int \<Rightarrow> int \<Rightarrow> rat option" where
  "getCountDaysInMonth H month year =
     (let date = new_Date_local H (Some (of_int year)) (Some (of_int (month - 1))) (Some 1);
          copy = new_Date_copy date;
          copy = setUTCMonth1 copy (num_add (getUTCMonth date) (Some 1));
          diff = map_option (\<lambda>d. of_int d / 1000 / 60 / 60 / 24) (num_sub copy date)
      in diff)"

definition getCountDaysOnPeriod :: "host \<Rightarrow> string \<Rightarrow> string \<Rightarrow> rat option" where
  "getCountDaysOnPeriod H dateStartStr dateEndStr =
     (let dateStart = new_Date_string H dateStartStr;
          dateEnd = new_Date_string H dateEndStr;
          dayInMilliseconds = 1000 * 60 * 60 * 24
      in map_option (\<lambda>d. of_int d / dayInMilliseconds + 1) (num_sub dateEnd dateStart))"

record DatePeriod =
  start :: string
  finish :: string

text \<open>
  The field \<^verbatim>\<open>end\<close> of a period is \<open>finish\<close> here (\<open>end\<close> is a keyword of the
  theory language).
\<close>

definition isDateInPeriod :: "host \<Rightarrow> string \<Rightarrow> DatePeriod \<Rightarrow> bool" where
  "isDateInPeriod H dateStr period =
     (let date = new_Date_string H dateStr;
          startDate = new_Date_string H (start period);
          endDate = new_Date_string H (finish period)
      in if num_lt date startDate \<or> num_gt date endDate then False else True)"

subsection \<open>formatDate\<close>

definition formatDate :: "host \<Rightarrow> string \<Rightarrow> string" where
  "formatDate H dateStr =
     (let date = new_Date_string H dateStr;
          year = getUTCFullYear date;
          month = num_add (getUTCMonth date) (Some 1);
          day = getUTCDate date;
          hours = getUTCHours date;
          minutes = getUTCMinutes date;
          formattedMinutes =
            (if num_lt minutes (Some 10) then ''0'' @ NumberToString minutes
             else NumberToString minutes);
          seconds = getUTCSeconds date;
          formattedSeconds =
            (if num_lt seconds (Some 10) then ''0'' @ NumberToString seconds
             else NumberToString seconds);
          dayPart = (if num_ge hours (Some 1) \<and> num_le hours (Some 11) then ''AM'' else ''PM'');
          hoursFormatted =
            (if strict_neq hours (Some 0) \<and> strict_neq hours (Some 12)
             then num_rem hours (Some 12) else Some 12)
      in NumberToString month @ ''/'' @ NumberToString day @ ''/'' @ NumberToString year
         @ '', '' @ NumberToString hoursFormatted @ '':'' @ formattedMinutes @ '':''
         @ formattedSeconds @ '' '' @ dayPart)"

subsection \<open>getCountWeekendsInMonth\<close>

function weekends_loop :: "host \<Rightarrow> rat option \<Rightarrow> number \<Rightarrow> int \<Rightarrow> int \<Rightarrow> int" where
  "weekends_loop H daysInMonth date i counter =
     (if (case daysInMonth of None \<Rightarrow> False | Some n \<Rightarrow> of_int i < n)
      then
        (let copy = new_Date_copy date;
             copy = setDate H copy (num_add (getDate H copy) (Some i));
             counter = (if strict_eq (getDay H copy) (Some 6) \<or> strict_eq (getDay H copy) (Some 0)
                        then counter + 1 else counter)
         in weekends_loop H daysInMonth date (i + 1) counter)
      else counter)"
  by pat_completeness auto
termination
  by (relation "measure (\<lambda>(H, daysInMonth, date, i, counter).
        case daysInMonth of None \<Rightarrow> 0 | Some n \<Rightarrow> nat (\<lceil>n\<rceil> - i))")
     (auto split: option.splits simp: less_ceiling_iff)

definition getCountWeekendsInMonth :: "host \<Rightarrow> int \<Rightarrow> int \<Rightarrow> int" where
  "getCountWeekendsInMonth H month year =
     (let daysInMonth = getCountDaysInMonth H month year;
          date = new_Date_local H (Some (of_int year)) (Some (of_int (month - 1))) (Some 1)
      in weekends_loop H daysInMonth date 0 0)"

subsection \<open>getWeekNumberByDate\<close>

definition getWeekNumberByDate :: "host \<Rightarrow> heap \<Rightarrow> ref \<Rightarrow> number \<times> heap" where
  "getWeekNumberByDate H h date =
     (let yearStart = length h;
          h = h @ [new_Date_copy (h ! date)];
          h = h[yearStart := setUTCMonth2 (h ! yearStart) (Some 0) (Some 1)];
          diffInDays = Math_floor_div (num_sub (h ! date) (h ! yearStart)) msPerDay;
          shift =
            (if strict_neq (getUTCDay (h ! yearStart)) (Some 1)
                \<and> strict_neq (getUTCDay (h ! yearStart)) (Some 0)
             then num_sub (getUTCDay (h ! yearStart)) (Some 1)
             else if strict_eq (getUTCDay (h ! yearStart)) (Some 0) then Some 6
             else Some 0);
          weekNo = Math_ceil_div (num_add (num_add diffInDays shift) (Some 1)) 7
      in (weekNo, h))"

subsection \<open>getNextFridayThe13th\<close>

text \<open>
  The loop's condition, \<^verbatim>\<open>typeof monthCounter === 'number'\<close>, holds of every number (NaN
  too): the loop ends only at its \<^verbatim>\<open>break\<close>. A run that never breaks is \<open>None\<close>.
\<close>

partial_function (option) friday13_loop :: "host \<Rightarrow> heap \<Rightarrow> ref \<Rightarrow> number \<Rightarrow> (ref \<times> heap) option"
  where
  "friday13_loop H h copy monthCounter =
     (let localCopy = length h;
          h1 = h @ [new_Date_copy (h ! copy)];
          h2 = h1[localCopy := setMonth2 H (h1 ! localCopy) monthCounter (Some 13)]
      in if strict_eq (getDay H (h2 ! localCopy)) (Some 5) then Some (localCopy, h2)
         else friday13_loop H h2 copy (num_add monthCounter (Some 1)))"

declare friday13_loop.simps [code]

definition getNextFridayThe13th :: "host \<Rightarrow> heap \<Rightarrow> ref \<Rightarrow> (ref \<times> heap) option" where
  "getNextFridayThe13th H h date =
     (let copy = length h;
          h = h @ [new_Date_copy (h ! date)];
          monthCounter = getMonth H (h ! copy)
      in friday13_loop H h copy monthCounter)"

subsection \<open>getQuarter, isLeapYear\<close>

definition getQuarter :: "host \<Rightarrow> heap \<Rightarrow> ref \<Rightarrow> number \<times> heap" where
  "getQuarter H h date =
     (let month = num_add (getMonth H (h ! date)) (Some 1)
      in (Math_ceil_div month 3, h))"

definition isLeapYear :: "host \<Rightarrow> heap \<Rightarrow> ref \<Rightarrow> bool \<times> heap" where
  "isLeapYear H h date =
     (let year = getFullYear H (h ! date)
      in if (strict_eq (num_rem year (Some 4)) (Some 0)
               \<and> strict_neq (num_rem year (Some 100)) (Some 0))
            \<or> strict_eq (num_rem year (Some 400)) (Some 0)
         then (True, h)
         else (False, h))"

subsection \<open>getWorkSchedule\<close>

text \<open>
  The inner \<^verbatim>\<open>for\<close> loop: one block of work days. It returns the array and the counter
  as they are when the loop is left, by its condition or by its \<^verbatim>\<open>break\<close>.
\<close>

function work_block ::
  "number \<Rightarrow> number \<Rightarrow> int \<Rightarrow> int \<Rightarrow> int \<Rightarrow> string list \<Rightarrow> string list \<times> int" where
  "work_block startDateCopy diff countWorkDays j interimDateCounter workDaysArr =
     (if j < countWorkDays
      then
        (let localCopy = new_Date_copy startDateCopy;
             localCopy = setUTCDate localCopy
                           (num_add (getUTCDate localCopy) (Some interimDateCounter));
             date = getUTCDate localCopy;
             month = num_add (getUTCMonth localCopy) (Some 1);
             formatted =
               (if num_lt date (Some 10) then ''0'' @ NumberToString date else NumberToString date)
               @ ''-''
               @ (if num_lt month (Some 10) then ''0'' @ NumberToString month
                  else NumberToString month)
               @ ''-'' @ NumberToString (getUTCFullYear localCopy);
             workDaysArr = workDaysArr @ [formatted];
             interimDateCounter = interimDateCounter + 1
         in if num_gt (Some interimDateCounter) diff then (workDaysArr, interimDateCounter)
            else work_block startDateCopy diff countWorkDays (j + 1) interimDateCounter
                   workDaysArr)
      else (workDaysArr, interimDateCounter))"
  by pat_completeness auto
termination
  by (relation "measure (\<lambda>(startDateCopy, diff, countWorkDays, j, interimDateCounter,
        workDaysArr). nat (countWorkDays - j))") auto

text \<open>
  The outer \<^verbatim>\<open>while\<close> loop. Nothing in the source bounds it when the counts are not
  positive: a run that never leaves the loop is \<open>None\<close>.
\<close>

partial_function (option) schedule_loop ::
  "number \<Rightarrow> number \<Rightarrow> int \<Rightarrow> int \<Rightarrow> int \<Rightarrow> string list \<Rightarrow> string list option" where
  "schedule_loop startDateCopy diff countWorkDays countOffDays interimDateCounter workDaysArr =
     (if num_le (Some interimDateCounter) diff
      then
        (let block = work_block startDateCopy diff countWorkDays 0 interimDateCounter
                       workDaysArr
         in schedule_loop startDateCopy diff countWorkDays countOffDays
              (snd block + countOffDays) (fst block))
      else Some workDaysArr)"

declare schedule_loop.simps [code]

definition getWorkSchedule :: "host \<Rightarrow> DatePeriod \<Rightarrow> int \<Rightarrow> int \<Rightarrow> string list option" where
  "getWorkSchedule H period countWorkDays countOffDays =
     (let fields = split CHR ''-'' (start period);
          startDay = element fields 0;
          startMonth = element fields 1;
          startYear = element fields 2;
          startDate = new_Date_local H (ToNumber startYear) (real_sub (ToNumber startMonth) (Some 1))
                        (ToNumber startDay);
          fields = split CHR ''-'' (finish period);
          endDay = element fields 0;
          endMonth = element fields 1;
          endYear = element fields 2;
          endDate = new_Date_local H (ToNumber endYear) (real_sub (ToNumber endMonth) (Some 1))
                      (ToNumber endDay);
          startDateCopy = new_Date_copy startDate;
          diff = Math_ceil_div (num_sub endDate startDate) msPerDay
      in schedule_loop startDateCopy diff countWorkDays countOffDays 0 [])"

declare work_block.simps [simp del]

declare weekends_loop.simps [simp del]

text \<open>
  One entry of the schedule: the lines of the inner loop from \<^verbatim>\<open>new Date(startDateCopy)\<close>
  to \<^verbatim>\<open>formatted\<close>, for the counter they are run with.
\<close>

definition schedule_entry :: "number \<Rightarrow> int \<Rightarrow> string" where
  "schedule_entry startDateCopy interimDateCounter =
     (let localCopy = new_Date_copy startDateCopy;
          localCopy = setUTCDate localCopy
                        (num_add (getUTCDate localCopy) (Some interimDateCounter));
          date = getUTCDate localCopy;
          month = num_add (getUTCMonth localCopy) (Some 1)
      in (if num_lt date (Some 10) then ''0'' @ NumberToString date else NumberToString date)
         @ ''-''
         @ (if num_lt month (Some 10) then ''0'' @ NumberToString month
            else NumberToString month)
         @ ''-'' @ NumberToString (getUTCFullYear localCopy))"

section \<open>What the specification says, in its own words\<close>

text \<open>
  The number of days \<open>getNextFriday\<close> adds, by the weekday of its argument (the two
  branches of its \<^verbatim>\<open>if\<close>).
\<close>

definition friday_diff :: "int \<Rightarrow> int" where
  "friday_diff wd = (if wd < 5 then 5 - wd else 7 - wd + 5)"

text \<open>
  The week number of the specification: weeks start on Monday and week 1 is the week
  that holds 1 January. \<open>monday\<close> is the Monday on or before 1 January of the year of
  \<open>t\<close> (day \<open>d\<close> is \<open>(d + 3) mod 7\<close> days after a Monday). \<open>week_shift\<close> is the shift
  the specification gives for the weekday of 1 January.
\<close>

definition week_shift :: "int \<Rightarrow> int" where
  "week_shift wd = (if wd = 0 then 6 else if wd = 1 then 0 else wd - 1)"

definition week_number :: "int \<Rightarrow> int" where
  "week_number t =
     (let jan1 = DayFromYear (YearFromTime t);
          monday = jan1 - (jan1 + 3) mod 7
      in (Day t - monday) div 7 + 1)"

text \<open>
  The schedule of the specification. \<open>cycle_days diff w off\<close> are the offsets from
  \<open>start\<close>, 0 to \<open>diff\<close>, that fall on the first \<open>w\<close> days of a cycle of \<open>w + off\<close>
  days that begins at offset 0. \<open>dmy d m y\<close> is the \<^verbatim>\<open>DD-MM-YYYY\<close> string of a date and
  \<open>dmy_of_day n\<close> the string of the day \<open>n\<close> days after 1 January 1970. A date is valid
  when it is a day of the calendar in a year of four digits.
\<close>

definition cycle_days :: "int \<Rightarrow> int \<Rightarrow> int \<Rightarrow> int list" where
  "cycle_days diff countWorkDays countOffDays =
     filter (\<lambda>k. k mod (countWorkDays + countOffDays) < countWorkDays) [0..diff]"

definition pad2 :: "int \<Rightarrow> string" where
  "pad2 n = (if n < 10 then ''0'' @ NumberToString (Some n) else NumberToString (Some n))"

definition dmy :: "int \<Rightarrow> int \<Rightarrow> int \<Rightarrow> string" where
  "dmy d m y = pad2 d @ ''-'' @ pad2 m @ ''-'' @ NumberToString (Some y)"

definition dmy_of_day :: "int \<Rightarrow> string" where
  "dmy_of_day n =
     (let t = n * msPerDay
      in dmy (DateFromTime t) (MonthFromTime t + 1) (YearFromTime t))"

definition valid_date :: "int \<Rightarrow> int \<Rightarrow> int \<Rightarrow> bool" where
  "valid_date d m y =
     (1000 \<le> y \<and> y \<le> 9999 \<and> 1 \<le> m \<and> m \<le> 12 \<and> 1 \<le> d \<and> d \<le> DaysInMonth y m)"

text \<open>
  The time stamp of the specification: the count of milliseconds from
  1970-01-01T00:00:00 UTC to an instant given by its calendar fields, the days counted
  year by year (365 or 366 each) and month by month. \<open>iso_string\<close> is the ISO string
  of the fields, each padded with zeros to its width, and an instant is valid when its
  fields are a day of the calendar in a year of four digits and a time of that day.
\<close>

definition days_from_epoch :: "int \<Rightarrow> int \<Rightarrow> int \<Rightarrow> int" where
  "days_from_epoch y m d =
     (if 1970 \<le> y then sum_list (map DaysInYear [1970..y - 1])
      else - sum_list (map DaysInYear [y..1969]))
     + sum_list (map (DaysInMonth y) [1..m - 1]) + (d - 1)"

definition ms_from_epoch :: "int \<Rightarrow> int \<Rightarrow> int \<Rightarrow> int \<Rightarrow> int \<Rightarrow> int \<Rightarrow> int \<Rightarrow> int" where
  "ms_from_epoch y m d h mi sec ms =
     days_from_epoch y m d * 86400000 + h * 3600000 + mi * 60000 + sec * 1000 + ms"

definition zero_pad :: "nat \<Rightarrow> int \<Rightarrow> string" where
  "zero_pad w n = replicate (w - length (digits (nat n))) CHR ''0'' @ digits (nat n)"

definition iso_string :: "int \<Rightarrow> int \<Rightarrow> int \<Rightarrow> int \<Rightarrow> int \<Rightarrow> int \<Rightarrow> int \<Rightarrow> string" where
  "iso_string y m d h mi sec ms =
     zero_pad 4 y @ ''-'' @ zero_pad 2 m @ ''-'' @ zero_pad 2 d @ ''T'' @ zero_pad 2 h
     @ '':'' @ zero_pad 2 mi @ '':'' @ zero_pad 2 sec @ ''.'' @ zero_pad 3 ms @ ''Z''"

definition valid_instant :: "int \<Rightarrow> int \<Rightarrow> int \<Rightarrow> int \<Rightarrow> int \<Rightarrow> int \<Rightarrow> int \<Rightarrow> bool" where
  "valid_instant y m d h mi sec ms =
     (0 \<le> y \<and> y \<le> 9999 \<and> 1 \<le> m \<and> m \<le> 12 \<and> 1 \<le> d \<and> d \<le> DaysInMonth y m
      \<and> 0 \<le> h \<and> h \<le> 23 \<and> 0 \<le> mi \<and> mi \<le> 59 \<and> 0 \<le> sec \<and> sec \<le> 59
      \<and> 0 \<le> ms \<and> ms \<le> 999)"

section \<open>Lemmas: the calendar\<close>

lemma div_lb: "0 < b \<Longrightarrow> b * (a div b) \<le> (a::int)"
  using mult_div_mod_eq[of b a] pos_mod_sign[of b a] by linarith

lemma div_ub: "0 < b \<Longrightarrow> (a::int) < b * (a div b) + b"
  using mult_div_mod_eq[of b a] pos_mod_bound[of b a] by linarith

lemma div_step:
  fixes a b :: int
  assumes "0 < b"
  shows "(a + 1) div b = a div b + (if (a + 1) mod b = 0 then 1 else 0)"
proof (cases "(a + 1) mod b = 0")
  case True
  have "a + 1 = b * ((a + 1) div b)" using True by (metis add.right_neutral mult_div_mod_eq)
  then have "a = b * ((a + 1) div b - 1) + (b - 1)" by (simp add: algebra_simps)
  then have "a div b = (a + 1) div b - 1"
    using assms by (intro int_div_pos_eq[where r = "b - 1"]) auto
  with True show ?thesis by simp
next
  case False
  have e: "a + 1 = b * (a div b) + (a mod b + 1)" by simp
  have "a mod b + 1 \<noteq> b"
  proof
    assume "a mod b + 1 = b"
    then have "b * (a div b) + (a mod b + 1) = b * (a div b) + b" by simp
    also have "\<dots> = b * (a div b + 1)" by (simp add: algebra_simps)
    finally have "a + 1 = b * (a div b + 1)" by (simp only: e [symmetric])
    then have "(a + 1) mod b = 0" by simp
    with False show False by simp
  qed
  moreover have "a mod b < b" "0 \<le> a mod b" using assms by simp_all
  ultimately have "a mod b + 1 < b" "0 \<le> a mod b + 1" by linarith+
  with e have "(a + 1) div b = a div b" by (intro int_div_pos_eq[where r = "a mod b + 1"]) auto
  with False show ?thesis by simp
qed

lemma mod_sub_mult: "(y - k * m) mod m = (y::int) mod m"
  using mod_mult_self1 [of y "- k" m] by simp

lemma mod4_shift: "(y - 1968) mod 4 = 0 \<longleftrightarrow> (y::int) mod 4 = 0"
  using mod_sub_mult [of y 492 4] by simp

lemma mod100_shift: "(y - 1900) mod 100 = 0 \<longleftrightarrow> (y::int) mod 100 = 0"
  using mod_sub_mult [of y 19 100] by simp

lemma mod400_shift: "(y - 1600) mod 400 = 0 \<longleftrightarrow> (y::int) mod 400 = 0"
  using mod_sub_mult [of y 4 400] by simp

lemma mod400_mod100: "(y::int) mod 400 = 0 \<Longrightarrow> y mod 100 = 0"
proof -
  assume "y mod 400 = 0"
  then have "400 dvd y" by (simp add: mod_eq_0_iff_dvd)
  moreover have "(100::int) dvd 400" by simp
  ultimately have "100 dvd y" by (rule dvd_trans [rotated])
  then show ?thesis by (simp add: mod_eq_0_iff_dvd)
qed

lemma mod100_mod4: "(y::int) mod 100 = 0 \<Longrightarrow> y mod 4 = 0"
proof -
  assume "y mod 100 = 0"
  then have "100 dvd y" by (simp add: mod_eq_0_iff_dvd)
  moreover have "(4::int) dvd 100" by simp
  ultimately have "4 dvd y" by (rule dvd_trans [rotated])
  then show ?thesis by (simp add: mod_eq_0_iff_dvd)
qed

lemma DayFromYear_Suc: "DayFromYear (y + 1) = DayFromYear y + DaysInYear y"
proof -
  have a: "(y + 1 - 1969) div 4 = (y - 1969) div 4 + (if y mod 4 = 0 then 1 else 0)"
    using div_step[of 4 "y - 1969"] mod4_shift[of y] by (simp add: algebra_simps)
  have b: "(y + 1 - 1901) div 100 = (y - 1901) div 100 + (if y mod 100 = 0 then 1 else 0)"
    using div_step[of 100 "y - 1901"] mod100_shift[of y] by (simp add: algebra_simps)
  have c: "(y + 1 - 1601) div 400 = (y - 1601) div 400 + (if y mod 400 = 0 then 1 else 0)"
    using div_step[of 400 "y - 1601"] mod400_shift[of y] by (simp add: algebra_simps)
  show ?thesis
    unfolding DayFromYear_def DaysInYear_def a b c
    using mod400_mod100[of y] mod100_mod4[of y] by auto
qed

lemma DaysInYear_cases: "DaysInYear y = 365 \<or> DaysInYear y = 366"
  by (simp add: DaysInYear_def)

lemma DayFromYear_lower: "146097 * y \<le> 400 * DayFromYear y + 287811596"
  unfolding DayFromYear_def
  using div_ub[of 4 "y - 1969"] div_lb[of 100 "y - 1901"] div_ub[of 400 "y - 1601"]
  by simp

lemma DayFromYear_upper: "400 * DayFromYear y + 287810501 \<le> 146097 * y"
  unfolding DayFromYear_def
  using div_lb[of 4 "y - 1969"] div_ub[of 100 "y - 1901"] div_lb[of 400 "y - 1601"]
  by simp

lemma DayFromYear_mono: "a < b \<Longrightarrow> DayFromYear a < DayFromYear b"
  using DayFromYear_lower[of b] DayFromYear_upper[of a] by linarith

lemma YearFromDay_bounds:
  "DayFromYear (YearFromDay d) \<le> d \<and> d < DayFromYear (YearFromDay d + 1)"
proof -
  define y where "y = 1970 + (400 * d) div 146097"
  have 1: "146097 * y \<le> 400 * d + 287811090" "400 * d + 287811090 < 146097 * y + 146097"
    using div_lb[of 146097 "400 * d"] div_ub[of 146097 "400 * d"] by (simp_all add: y_def)
  have lo: "DayFromYear (y - 1) \<le> d"
    using DayFromYear_upper[of "y - 1"] 1 by (simp add: algebra_simps)
  have hi: "d < DayFromYear (y + 1 + 1)"
    using DayFromYear_lower[of "y + 1 + 1"] 1 by (simp add: algebra_simps)
  have yd: "YearFromDay d =
    (if DayFromYear (y + 1) \<le> d then y + 1 else if DayFromYear y \<le> d then y else y - 1)"
    by (simp add: YearFromDay_def y_def Let_def)
  show ?thesis
  proof (cases "DayFromYear (y + 1) \<le> d")
    case True
    with hi yd show ?thesis by simp
  next
    case False
    note F = this
    show ?thesis
    proof (cases "DayFromYear y \<le> d")
      case True
      with F yd show ?thesis by simp
    next
      case False
      with F yd lo show ?thesis by simp
    qed
  qed
qed

lemma YearFromDay_unique:
  assumes "DayFromYear y \<le> d" "d < DayFromYear (y + 1)"
  shows "YearFromDay d = y"
proof -
  let ?z = "YearFromDay d"
  have b: "DayFromYear ?z \<le> d" "d < DayFromYear (?z + 1)" using YearFromDay_bounds by auto
  have "\<not> ?z < y"
  proof
    assume "?z < y"
    then have "?z + 1 \<le> y" by simp
    then have "DayFromYear (?z + 1) \<le> DayFromYear y"
      using DayFromYear_mono[of "?z + 1" y] by (cases "?z + 1 = y") auto
    with b assms show False by linarith
  qed
  moreover have "\<not> y < ?z"
  proof
    assume "y < ?z"
    then have "y + 1 \<le> ?z" by simp
    then have "DayFromYear (y + 1) \<le> DayFromYear ?z"
      using DayFromYear_mono[of "y + 1" ?z] by (cases "y + 1 = ?z") auto
    with b assms show False by linarith
  qed
  ultimately show ?thesis by linarith
qed

lemma DayWithinYear_bounds: "0 \<le> DayWithinYear t \<and> DayWithinYear t < DaysInYear (YearFromTime t)"
  using YearFromDay_bounds[of "Day t"] DayFromYear_Suc[of "YearFromTime t"]
  by (simp add: DayWithinYear_def YearFromTime_def)

lemma MonthFromTime_range: "0 \<le> MonthFromTime t \<and> MonthFromTime t \<le> 11"
  by (simp add: MonthFromTime_def Let_def)

lemma day_of_month_decompose:
  "DayFromMonth (MonthFromTime t) (InLeapYear t) + DateFromTime t - 1 = DayWithinYear t"
  by (simp add: DayFromMonth_def MonthFromTime_def DateFromTime_def Let_def)

lemma MakeDay_of_fields:
  "MakeDay (YearFromTime t) (MonthFromTime t) (DateFromTime t + k) = Day t + k"
proof -
  have m: "MonthFromTime t div 12 = 0" "MonthFromTime t mod 12 = MonthFromTime t"
    using MonthFromTime_range[of t] by simp_all
  have "MakeDay (YearFromTime t) (MonthFromTime t) (DateFromTime t + k)
      = DayFromYear (YearFromTime t) + DayFromMonth (MonthFromTime t) (InLeapYear t)
        + (DateFromTime t + k) - 1"
    by (simp add: MakeDay_def Let_def m InLeapYear_def)
  also have "\<dots> = DayFromYear (YearFromTime t) + DayWithinYear t + k"
    using day_of_month_decompose[of t] by simp
  finally show ?thesis by (simp add: DayWithinYear_def)
qed

lemma Day_TimeWithinDay: "Day t * msPerDay + TimeWithinDay t = t"
  by (simp add: Day_def TimeWithinDay_def)

lemma Day_add_days: "Day (t + k * msPerDay) = Day t + k"
  by (simp add: Day_def msPerDay_def)

lemma TimeWithinDay_add_days: "TimeWithinDay (t + k * msPerDay) = TimeWithinDay t"
  by (simp add: TimeWithinDay_def msPerDay_def)

lemma WeekDay_add_days: "WeekDay (t + k * msPerDay) = (WeekDay t + k) mod 7"
  unfolding WeekDay_def Day_add_days by (simp add: mod_simps add_ac)

lemma WeekDay_range: "0 \<le> WeekDay t \<and> WeekDay t < 7"
  by (simp add: WeekDay_def)

lemma TimeClip_in_range: "\<bar>t\<bar> \<le> 8640000000000000 \<Longrightarrow> TimeClip t = Some t"
  by (simp add: TimeClip_def)

section \<open>Lemmas: getNextFriday\<close>

text \<open>
  \<^verbatim>\<open>setDate(getDate() + k)\<close> moves local time by \<open>k\<close> days; the time value moves by
  \<open>k\<close> days and by what the offset has changed between the two.
\<close>

lemma setDate_add_days_local:
  "setDate H (Some t) (num_add (getDate H (Some t)) (Some k))
     = TimeClip (UTC H (LocalTime H t + k * msPerDay))"
proof -
  let ?l = "LocalTime H t"
  have "MakeDate (MakeDay (YearFromTime ?l) (MonthFromTime ?l) (DateFromTime ?l + k))
          (TimeWithinDay ?l) = (Day ?l + k) * msPerDay + TimeWithinDay ?l"
    by (simp add: MakeDate_def MakeDay_of_fields)
  also have "\<dots> = ?l + k * msPerDay"
    using Day_TimeWithinDay[of ?l] by (simp add: algebra_simps)
  finally show ?thesis
    by (simp add: setDate_def getDate_def num_add_def Let_def)
qed

lemma setDate_add_days:
  assumes "\<bar>t + k * msPerDay\<bar> \<le> 8640000000000000"
    and "LocalTZA H (LocalTime H t + k * msPerDay) False = LocalTZA H t True"
  shows "setDate H (Some t) (num_add (getDate H (Some t)) (Some k)) = Some (t + k * msPerDay)"
proof -
  have "UTC H (LocalTime H t + k * msPerDay) = t + k * msPerDay"
    unfolding UTC_def assms(2) by (simp add: LocalTime_def)
  then show ?thesis
    unfolding setDate_add_days_local using assms(1) by (simp add: TimeClip_in_range)
qed

lemma getNextFriday_local:
  assumes "h ! date = Some t"
  shows "getNextFriday H h date
           = (date, h[date := TimeClip (UTC H (LocalTime H t
                                 + friday_diff (WeekDay t) * msPerDay))])"
proof -
  let ?d = "friday_diff (WeekDay t)"
  have d: "(if num_lt (getUTCDay (Some t)) (Some 5) then num_sub (Some 5) (getUTCDay (Some t))
            else num_add (num_sub (Some 7) (getUTCDay (Some t))) (Some 5)) = Some ?d"
    by (simp add: getUTCDay_def num_lt_def num_sub_def num_add_def friday_diff_def)
  show ?thesis
    unfolding getNextFriday_def Let_def assms d setDate_add_days_local ..
qed

text \<open>
  Where the offset after the move is the offset before it (a host that never changes
  its offset, or a move that crosses no change), the object moves to the next Friday of
  UTC, \<open>friday_diff\<close> whole days later.
\<close>

lemma getNextFriday_value:
  assumes "date < length h" "h ! date = Some t"
    and "- 8640000000000000 \<le> t" "t + 7 * msPerDay \<le> 8640000000000000"
    and "LocalTZA H (LocalTime H t + friday_diff (WeekDay t) * msPerDay) False
           = LocalTZA H t True"
  shows "getNextFriday H h date = (date, h[date := Some (t + friday_diff (WeekDay t) * msPerDay)])"
proof -
  let ?d = "friday_diff (WeekDay t)"
  have r: "1 \<le> ?d" "?d \<le> 7"
    using WeekDay_range[of t] by (auto simp: friday_diff_def)
  have "?d * msPerDay \<le> 7 * msPerDay" "0 \<le> ?d * msPerDay"
    using r by (simp_all add: msPerDay_def)
  with assms have "\<bar>t + ?d * msPerDay\<bar> \<le> 8640000000000000" by linarith
  then have s: "setDate H (Some t) (num_add (getDate H (Some t)) (Some ?d)) = Some (t + ?d * msPerDay)"
    using assms(5) by (rule setDate_add_days)
  have d: "(if num_lt (getUTCDay (Some t)) (Some 5) then num_sub (Some 5) (getUTCDay (Some t))
            else num_add (num_sub (Some 7) (getUTCDay (Some t))) (Some 5)) = Some ?d"
    by (simp add: getUTCDay_def num_lt_def num_sub_def num_add_def friday_diff_def)
  show ?thesis
    unfolding getNextFriday_def Let_def assms(2) d s by simp
qed

lemma friday_diff_friday: "WeekDay (t + friday_diff (WeekDay t) * msPerDay) = 5"
  using WeekDay_range[of t] unfolding WeekDay_add_days friday_diff_def
  by (auto simp: mod_simps) 


section \<open>Lemmas: getWeekNumberByDate\<close>

lemma Day_of_day_start:
  assumes "0 \<le> r" "r < msPerDay"
  shows "Day (d * msPerDay + r) = d"
  using assms by (simp add: Day_def msPerDay_def)

lemma year_start_value:
  assumes "- 8640000000000000 + 366 * msPerDay \<le> t" "t \<le> 8640000000000000"
  shows "setUTCMonth2 (Some t) (Some 0) (Some 1)
           = Some (DayFromYear (YearFromTime t) * msPerDay + TimeWithinDay t)"
proof -
  let ?j = "DayFromYear (YearFromTime t)"
  have md: "MakeDay (YearFromTime t) 0 1 = ?j"
    by (simp add: MakeDay_def DayFromMonth_def)
  have b: "0 \<le> DayWithinYear t" "DayWithinYear t < 366"
    using DayWithinYear_bounds[of t] DaysInYear_cases[of "YearFromTime t"] by auto
  have e: "?j * msPerDay + TimeWithinDay t = t - DayWithinYear t * msPerDay"
    using Day_TimeWithinDay[of t] by (simp add: DayWithinYear_def algebra_simps)
  have "0 \<le> DayWithinYear t * msPerDay" "DayWithinYear t * msPerDay \<le> 366 * msPerDay"
    using b by (simp_all add: msPerDay_def)
  with e assms have "\<bar>?j * msPerDay + TimeWithinDay t\<bar> \<le> 8640000000000000"
    by linarith
  then show ?thesis
    by (simp add: setUTCMonth2_def md MakeDate_def TimeClip_in_range)
qed

lemma ceil_div7: "- ((- (n + 1)) div 7) = n div 7 + (1::int)"
proof -
  have "- (n + 1) = 7 * (- (n div 7 + 1)) + (6 - n mod 7)"
    using mult_div_mod_eq[of 7 n] by (simp add: algebra_simps)
  moreover have "0 \<le> 6 - n mod 7" "6 - n mod 7 < 7"
    using pos_mod_sign[of 7 n] pos_mod_bound[of 7 n] by simp_all
  ultimately have "(- (n + 1)) div 7 = - (n div 7 + 1)"
    by (rule int_div_pos_eq)
  then show ?thesis by simp
qed

lemma week_shift_monday: "week_shift ((j + 4) mod 7) = (j + 3) mod 7"
proof -
  define m where "m = (j + 3) mod 7"
  have b: "0 \<le> m" "m < 7" by (simp_all add: m_def)
  have a: "((j + 3) mod 7 + 1) mod 7 = (j + 3 + 1) mod 7" by (rule mod_add_left_eq)
  have c: "j + 3 + 1 = j + 4" by simp
  have e: "(j + 4) mod 7 = (m + 1) mod 7" unfolding m_def a c ..
  show ?thesis
  proof (cases "m = 6")
    case True
    then show ?thesis unfolding e m_def [symmetric] by (simp add: week_shift_def)
  next
    case False
    with b have "m + 1 < 7" "0 \<le> m + 1" by simp_all
    then have "(m + 1) mod 7 = m + 1" by simp
    with b show ?thesis unfolding e m_def [symmetric] by (simp add: week_shift_def)
  qed
qed

lemma getWeekNumberByDate_value:
  assumes "date < length h" and "h ! date = Some t"
    and "- 8640000000000000 + 366 * msPerDay \<le> t" and "t \<le> 8640000000000000"
  shows "fst (getWeekNumberByDate H h date) = Some (week_number t)"
proof -
  let ?j = "DayFromYear (YearFromTime t)"
  let ?ys = "?j * msPerDay + TimeWithinDay t"
  let ?h2 = "(h @ [Some t])[length h := Some ?ys]"
  have inr: "\<bar>t\<bar> \<le> 8640000000000000" using assms by (simp add: msPerDay_def)
  have c: "new_Date_copy (Some t) = Some t"
    using inr by (simp add: new_Date_copy_def new_Date_number_def TimeClip_in_range)
  have h1y: "(h @ [Some t]) ! length h = Some t" by simp
  have hy: "?h2 ! length h = Some ?ys" by simp
  have hd: "?h2 ! date = Some t" using assms(1,2) by (simp add: nth_append)
  have twd: "0 \<le> TimeWithinDay t" "TimeWithinDay t < msPerDay"
    by (simp_all add: TimeWithinDay_def msPerDay_def)
  have wd: "WeekDay ?ys = (?j + 4) mod 7"
    using twd by (simp add: WeekDay_def Day_of_day_start)
  have "t - ?ys = DayWithinYear t * msPerDay"
    using Day_TimeWithinDay[of t] by (simp add: DayWithinYear_def algebra_simps)
  then have diff: "(t - ?ys) div msPerDay = DayWithinYear t"
    by (simp add: msPerDay_def)
  have sh: "(if strict_neq (getUTCDay (Some ?ys)) (Some 1) \<and> strict_neq (getUTCDay (Some ?ys)) (Some 0)
             then num_sub (getUTCDay (Some ?ys)) (Some 1)
             else if strict_eq (getUTCDay (Some ?ys)) (Some 0) then Some 6 else Some 0)
            = Some (week_shift ((?j + 4) mod 7))"
    by (simp add: getUTCDay_def wd strict_neq_def strict_eq_def num_sub_def week_shift_def)
  have "fst (getWeekNumberByDate H h date)
      = Math_ceil_div (num_add (num_add (Math_floor_div (num_sub (Some t) (Some ?ys)) msPerDay)
           (Some (week_shift ((?j + 4) mod 7)))) (Some 1)) 7"
    unfolding getWeekNumberByDate_def Let_def assms(2) c h1y
      year_start_value[OF assms(3,4)] hy hd sh by simp
  also have "\<dots> = Some (- ((- (DayWithinYear t + (?j + 3) mod 7 + 1)) div 7))"
    by (simp add: Math_ceil_div_def Math_floor_div_def num_add_def num_sub_def diff
        week_shift_monday)
  also have "\<dots> = Some ((DayWithinYear t + (?j + 3) mod 7) div 7 + 1)"
    by (simp only: ceil_div7)
  also have "\<dots> = Some (week_number t)"
    by (simp add: week_number_def Let_def DayWithinYear_def algebra_simps)
  finally show ?thesis .
qed

lemma WeekDay_day_start: "WeekDay (j * msPerDay) = (j + 4) mod 7"
  by (simp add: WeekDay_def Day_def msPerDay_def)

lemma week_number_example: "week_number 1706659200000 = 5"
  by code_simp

lemma getWeekNumberByDate_examples:
  "fst (getWeekNumberByDate utc_host [new_Date_local utc_host (Some 2024) (Some 0) (Some 3)] 0)
   = Some 1"
  "fst (getWeekNumberByDate utc_host [new_Date_local utc_host (Some 2024) (Some 0) (Some 31)] 0)
   = Some 5"
  "fst (getWeekNumberByDate utc_host [new_Date_local utc_host (Some 2024) (Some 1) (Some 23)] 0)
   = Some 8"
  by code_simp+


section \<open>Lemmas: what the functions do to the heap\<close>

lemma getWeekNumberByDate_frame:
  "take (length h) (snd (getWeekNumberByDate H h date)) = h"
  by (simp add: getWeekNumberByDate_def Let_def)

lemma getWeekNumberByDate_reads_argument:
  assumes "date < length h" "date' < length g" "g ! date' = h ! date"
  shows "fst (getWeekNumberByDate H g date') = fst (getWeekNumberByDate H h date)"
  using assms by (simp add: getWeekNumberByDate_def Let_def nth_append)

lemma friday13_loop_frame:
  assumes "friday13_loop H h copy monthCounter = Some y"
  shows "take (length h) (snd y) = h \<and> length h \<le> fst y \<and> fst y < length (snd y)"
proof (rule friday13_loop.raw_induct [where P = "\<lambda>H h copy monthCounter y.
    take (length h) (snd y) = h \<and> length h \<le> fst y \<and> fst y < length (snd y)", OF _ assms])
  fix loop :: "host \<Rightarrow> heap \<Rightarrow> ref \<Rightarrow> number \<Rightarrow> (ref \<times> heap) option"
  fix H h copy monthCounter y
  assume IH: "\<And>H h copy monthCounter y. loop H h copy monthCounter = Some y \<Longrightarrow>
    take (length h) (snd y) = h \<and> length h \<le> fst y \<and> fst y < length (snd y)"
  assume body: "(let localCopy = length h; h1 = h @ [new_Date_copy (h ! copy)];
          h2 = h1[localCopy := setMonth2 H (h1 ! localCopy) monthCounter (Some 13)]
      in if strict_eq (getDay H (h2 ! localCopy)) (Some 5) then Some (localCopy, h2)
         else loop H h2 copy (num_add monthCounter (Some 1))) = Some y"
  let ?h2 = "(h @ [new_Date_copy (h ! copy)])[length h :=
                setMonth2 H ((h @ [new_Date_copy (h ! copy)]) ! length h) monthCounter (Some 13)]"
  show "take (length h) (snd y) = h \<and> length h \<le> fst y \<and> fst y < length (snd y)"
  proof (cases "strict_eq (getDay H (?h2 ! length h)) (Some 5)")
    case True
    with body have "y = (length h, ?h2)" by (simp add: Let_def)
    then show ?thesis by simp
  next
    case False
    with body have "loop H ?h2 copy (num_add monthCounter (Some 1)) = Some y"
      by (simp add: Let_def)
    from IH[OF this]
    have a: "take (length ?h2) (snd y) = ?h2" "length ?h2 \<le> fst y" "fst y < length (snd y)"
      by simp_all
    have l: "length ?h2 = Suc (length h)" by simp
    have "take (length h) (snd y) = take (length h) (take (length ?h2) (snd y))"
      unfolding l by (simp add: min_def)
    also have "\<dots> = take (length h) ?h2" by (simp only: a(1))
    also have "\<dots> = h" by simp
    finally have "take (length h) (snd y) = h" .
    with a(2,3) l show ?thesis by simp
  qed
qed


lemma friday13_loop_reads_copy:
  assumes "friday13_loop H h copy monthCounter = Some y"
    and "copy < length h" and "copy' < length g" and "g ! copy' = h ! copy"
  shows "\<exists>y'. friday13_loop H g copy' monthCounter = Some y' \<and> snd y' ! fst y' = snd y ! fst y"
proof -
  have "copy < length h \<longrightarrow> (\<forall>g copy'. copy' < length g \<longrightarrow> g ! copy' = h ! copy \<longrightarrow>
      (\<exists>y'. friday13_loop H g copy' monthCounter = Some y' \<and> snd y' ! fst y' = snd y ! fst y))"
  proof (rule friday13_loop.raw_induct [where P = "\<lambda>H h copy monthCounter y.
      copy < length h \<longrightarrow> (\<forall>g copy'. copy' < length g \<longrightarrow> g ! copy' = h ! copy \<longrightarrow>
      (\<exists>y'. friday13_loop H g copy' monthCounter = Some y' \<and> snd y' ! fst y' = snd y ! fst y))",
      OF _ assms(1)])
    fix loop :: "host \<Rightarrow> heap \<Rightarrow> ref \<Rightarrow> number \<Rightarrow> (ref \<times> heap) option"
    fix H h copy monthCounter y
    assume IH: "\<And>H h copy monthCounter y. loop H h copy monthCounter = Some y \<Longrightarrow>
      copy < length h \<longrightarrow> (\<forall>g copy'. copy' < length g \<longrightarrow> g ! copy' = h ! copy \<longrightarrow>
      (\<exists>y'. friday13_loop H g copy' monthCounter = Some y' \<and> snd y' ! fst y' = snd y ! fst y))"
    assume body: "(let localCopy = length h; h1 = h @ [new_Date_copy (h ! copy)];
          h2 = h1[localCopy := setMonth2 H (h1 ! localCopy) monthCounter (Some 13)]
      in if strict_eq (getDay H (h2 ! localCopy)) (Some 5) then Some (localCopy, h2)
         else loop H h2 copy (num_add monthCounter (Some 1))) = Some y"
    let ?v = "setMonth2 H (new_Date_copy (h ! copy)) monthCounter (Some 13)"
    let ?h2 = "(h @ [new_Date_copy (h ! copy)])[length h := ?v]"
    show "copy < length h \<longrightarrow> (\<forall>g copy'. copy' < length g \<longrightarrow> g ! copy' = h ! copy \<longrightarrow>
      (\<exists>y'. friday13_loop H g copy' monthCounter = Some y' \<and> snd y' ! fst y' = snd y ! fst y))"
    proof (intro impI allI)
      fix g copy'
      assume c: "copy < length h" and c': "copy' < length g" and e: "g ! copy' = h ! copy"
      let ?g2 = "(g @ [new_Date_copy (g ! copy')])[length g := ?v]"
      have unfold_g: "friday13_loop H g copy' monthCounter =
        (if strict_eq (getDay H ?v) (Some 5) then Some (length g, ?g2)
         else friday13_loop H ?g2 copy' (num_add monthCounter (Some 1)))"
        by (subst friday13_loop.simps) (simp add: Let_def e)
      show "\<exists>y'. friday13_loop H g copy' monthCounter = Some y' \<and> snd y' ! fst y' = snd y ! fst y"
      proof (cases "strict_eq (getDay H ?v) (Some 5)")
        case True
        with body have "y = (length h, ?h2)" by (simp add: Let_def)
        with True unfold_g show ?thesis by simp
      next
        case False
        with body have "loop H ?h2 copy (num_add monthCounter (Some 1)) = Some y"
          by (simp add: Let_def)
        from IH[OF this]
        have "copy < length ?h2 \<longrightarrow> (\<forall>g copy'. copy' < length g \<longrightarrow> g ! copy' = ?h2 ! copy \<longrightarrow>
          (\<exists>y'. friday13_loop H g copy' (num_add monthCounter (Some 1)) = Some y'
                \<and> snd y' ! fst y' = snd y ! fst y))" .
        moreover have "copy < length ?h2" using c by simp
        moreover have "copy' < length ?g2" using c' by simp
        moreover have "?g2 ! copy' = ?h2 ! copy" using c c' e by (simp add: nth_append)
        ultimately have "\<exists>y'. friday13_loop H ?g2 copy' (num_add monthCounter (Some 1)) = Some y'
                \<and> snd y' ! fst y' = snd y ! fst y" by blast
        with False unfold_g show ?thesis by simp
      qed
    qed
  qed
  with assms(2,3,4) show ?thesis by blast
qed

lemma getNextFridayThe13th_frame:
  assumes "getNextFridayThe13th H h date = Some (r, h')"
  shows "take (length h) h' = h \<and> length h \<le> r \<and> r < length h'"
proof -
  let ?h1 = "h @ [new_Date_copy (h ! date)]"
  from assms have "friday13_loop H ?h1 (length h) (getMonth H (?h1 ! length h)) = Some (r, h')"
    by (simp add: getNextFridayThe13th_def Let_def)
  from friday13_loop_frame[OF this]
  have a: "take (length ?h1) h' = ?h1" "length ?h1 \<le> r" "r < length h'" by simp_all
  have "take (length h) h' = take (length h) (take (length ?h1) h')" by (simp add: min_def)
  also have "\<dots> = take (length h) ?h1" by (simp only: a(1))
  also have "\<dots> = h" by simp
  finally show ?thesis using a(2,3) by simp
qed

text \<open>
  The time value \<^verbatim>\<open>getNextFridayThe13th\<close> returns is a function of the time value of
  its argument: on whatever heap, and whether the call returns or not.
\<close>

lemma getNextFridayThe13th_reads_argument_result:
  assumes "getNextFridayThe13th H h date = Some (r, h')" and "g ! date' = h ! date"
  shows "\<exists>r2 h2. getNextFridayThe13th H g date' = Some (r2, h2) \<and> h2 ! r2 = h' ! r"
proof -
  let ?h1 = "h @ [new_Date_copy (h ! date)]"
  let ?g1 = "g @ [new_Date_copy (g ! date')]"
  from assms(1) have 1: "friday13_loop H ?h1 (length h) (getMonth H (new_Date_copy (h ! date)))
      = Some (r, h')"
    by (simp add: getNextFridayThe13th_def Let_def)
  have "\<exists>y'. friday13_loop H ?g1 (length g) (getMonth H (new_Date_copy (h ! date))) = Some y'
          \<and> snd y' ! fst y' = snd (r, h') ! fst (r, h')"
    by (rule friday13_loop_reads_copy[OF 1]) (simp_all add: assms(2))
  then obtain y' where "friday13_loop H ?g1 (length g) (getMonth H (new_Date_copy (h ! date))) = Some y'"
      "snd y' ! fst y' = h' ! r" by auto
  then have "getNextFridayThe13th H g date' = Some (fst y', snd y') \<and> snd y' ! fst y' = h' ! r"
    by (simp add: getNextFridayThe13th_def Let_def assms(2))
  then show ?thesis by blast
qed

lemma getNextFridayThe13th_reads_argument:
  assumes "g ! date' = h ! date"
  shows "map_option (\<lambda>y. snd y ! fst y) (getNextFridayThe13th H g date')
           = map_option (\<lambda>y. snd y ! fst y) (getNextFridayThe13th H h date)"
proof (cases "getNextFridayThe13th H h date")
  case None
  show ?thesis
  proof (cases "getNextFridayThe13th H g date'")
    case None
    with \<open>getNextFridayThe13th H h date = None\<close> show ?thesis by simp
  next
    case (Some y)
    then have "getNextFridayThe13th H g date' = Some (fst y, snd y)" by simp
    from getNextFridayThe13th_reads_argument_result[OF this assms [symmetric]]
    have "\<exists>r2 h2. getNextFridayThe13th H h date = Some (r2, h2)" by blast
    with None show ?thesis by simp
  qed
next
  case (Some y)
  then have "getNextFridayThe13th H h date = Some (fst y, snd y)" by simp
  from getNextFridayThe13th_reads_argument_result[OF this assms]
  obtain r2 h2 where "getNextFridayThe13th H g date' = Some (r2, h2)" "h2 ! r2 = snd y ! fst y"
    by blast
  with Some show ?thesis by simp
qed

text \<open>
  What the functions that take a \<^verbatim>\<open>Date\<close> or a period read of the host is its
  offset: two hosts with the same \<open>LocalTZA\<close> give the same results.
\<close>

lemma LocalTime_host: "LocalTZA H = LocalTZA H' \<Longrightarrow> LocalTime H = LocalTime H'"
  by (intro ext) (simp add: LocalTime_def)

lemma UTC_host: "LocalTZA H = LocalTZA H' \<Longrightarrow> UTC H = UTC H'"
  by (intro ext) (simp add: UTC_def)

lemma getNextFriday_host:
  assumes "LocalTZA H = LocalTZA H'"
  shows "getNextFriday H = getNextFriday H'"
  unfolding getNextFriday_def setDate_def getDate_def
    LocalTime_host [OF assms] UTC_host [OF assms] ..

lemma getWorkSchedule_host:
  assumes "LocalTZA H = LocalTZA H'"
  shows "getWorkSchedule H = getWorkSchedule H'"
  unfolding getWorkSchedule_def new_Date_local_def UTC_host [OF assms] ..

lemma setMonth2_host:
  assumes "LocalTZA H = LocalTZA H'"
  shows "setMonth2 H = setMonth2 H'"
  unfolding setMonth2_def LocalTime_host [OF assms] UTC_host [OF assms] ..

lemma getDay_host:
  assumes "LocalTZA H = LocalTZA H'"
  shows "getDay H = getDay H'"
  unfolding getDay_def LocalTime_host [OF assms] ..

lemma getMonth_host:
  assumes "LocalTZA H = LocalTZA H'"
  shows "getMonth H = getMonth H'"
  unfolding getMonth_def LocalTime_host [OF assms] ..

lemma friday13_loop_host_result:
  assumes "friday13_loop H h copy monthCounter = Some y" and "LocalTZA H = LocalTZA H'"
  shows "friday13_loop H' h copy monthCounter = Some y"
proof -
  have "LocalTZA H = LocalTZA H' \<longrightarrow> friday13_loop H' h copy monthCounter = Some y"
  proof (rule friday13_loop.raw_induct [where P = "\<lambda>H h copy monthCounter y.
      LocalTZA H = LocalTZA H' \<longrightarrow> friday13_loop H' h copy monthCounter = Some y", OF _ assms(1)])
    fix loop :: "host \<Rightarrow> heap \<Rightarrow> ref \<Rightarrow> number \<Rightarrow> (ref \<times> heap) option"
    fix H h copy monthCounter y
    assume IH: "\<And>H h copy monthCounter y. loop H h copy monthCounter = Some y \<Longrightarrow>
      LocalTZA H = LocalTZA H' \<longrightarrow> friday13_loop H' h copy monthCounter = Some y"
    assume body: "(let localCopy = length h; h1 = h @ [new_Date_copy (h ! copy)];
          h2 = h1[localCopy := setMonth2 H (h1 ! localCopy) monthCounter (Some 13)]
      in if strict_eq (getDay H (h2 ! localCopy)) (Some 5) then Some (localCopy, h2)
         else loop H h2 copy (num_add monthCounter (Some 1))) = Some y"
    show "LocalTZA H = LocalTZA H' \<longrightarrow> friday13_loop H' h copy monthCounter = Some y"
    proof
      assume e: "LocalTZA H = LocalTZA H'"
      let ?h2 = "(h @ [new_Date_copy (h ! copy)])[length h :=
                setMonth2 H' ((h @ [new_Date_copy (h ! copy)]) ! length h) monthCounter (Some 13)]"
      note body' = body [unfolded setMonth2_host [OF e] getDay_host [OF e]]
      show "friday13_loop H' h copy monthCounter = Some y"
      proof (cases "strict_eq (getDay H' (?h2 ! length h)) (Some 5)")
        case True
        with body' have "y = (length h, ?h2)" by (simp add: Let_def)
        with True show ?thesis by (subst friday13_loop.simps) (simp add: Let_def)
      next
        case False
        with body' have "loop H ?h2 copy (num_add monthCounter (Some 1)) = Some y"
          by (simp add: Let_def)
        from IH [OF this] e
        have "friday13_loop H' ?h2 copy (num_add monthCounter (Some 1)) = Some y" by simp
        with False show ?thesis by (subst friday13_loop.simps) (simp add: Let_def)
      qed
    qed
  qed
  with assms(2) show ?thesis by simp
qed

lemma getNextFridayThe13th_host:
  assumes "LocalTZA H = LocalTZA H'"
  shows "getNextFridayThe13th H = getNextFridayThe13th H'"
proof (intro ext)
  fix h date
  let ?h1 = "h @ [new_Date_copy (h ! date)]"
  let ?m = "getMonth H' (?h1 ! length h)"
  have a: "getNextFridayThe13th H h date = friday13_loop H ?h1 (length h) ?m"
    by (simp add: getNextFridayThe13th_def Let_def getMonth_host [OF assms])
  have b: "getNextFridayThe13th H' h date = friday13_loop H' ?h1 (length h) ?m"
    by (simp add: getNextFridayThe13th_def Let_def)
  show "getNextFridayThe13th H h date = getNextFridayThe13th H' h date"
  proof (cases "friday13_loop H ?h1 (length h) ?m")
    case (Some y)
    from friday13_loop_host_result [OF this assms] Some show ?thesis unfolding a b by simp
  next
    case None
    show ?thesis
    proof (cases "friday13_loop H' ?h1 (length h) ?m")
      case (Some y)
      from friday13_loop_host_result [OF this assms [symmetric]] None show ?thesis by simp
    next
      case n: None
      with None show ?thesis unfolding a b by simp
    qed
  qed
qed

section \<open>Lemmas: the loops of getWorkSchedule\<close>

lemma work_block_unfold:
  "work_block s diff w j c acc =
     (if j < w
      then (if num_gt (Some (c + 1)) diff then (acc @ [schedule_entry s c], c + 1)
            else work_block s diff w (j + 1) (c + 1) (acc @ [schedule_entry s c]))
      else (acc, c))"
  by (subst work_block.simps) (simp add: Let_def schedule_entry_def)

lemma work_block_induct:
  fixes w :: int and diff :: number and s :: number
    and P :: "int \<Rightarrow> int \<Rightarrow> string list \<Rightarrow> bool"
  assumes "\<And>j c acc. (j < w \<Longrightarrow> \<not> num_gt (Some (c + 1)) diff \<Longrightarrow>
              P (j + 1) (c + 1) (acc @ [schedule_entry s c])) \<Longrightarrow> P j c acc"
  shows "P j c acc"
proof (induct "nat (w - j)" arbitrary: j c acc)
  case (0 j c acc)
  then have "\<not> j < w" by simp
  show ?case
  proof (rule assms)
    assume "j < w"
    with \<open>\<not> j < w\<close> show "P (j + 1) (c + 1) (acc @ [schedule_entry s c])" by simp
  qed
next
  case (Suc n j c acc)
  show ?case
  proof (rule assms)
    assume "j < w" and "\<not> num_gt (Some (c + 1)) diff"
    with Suc(2) have "n = nat (w - (j + 1))" by simp
    then show "P (j + 1) (c + 1) (acc @ [schedule_entry s c])" by (rule Suc(1))
  qed
qed

lemma work_block_counter_progress:
  "c + (w - j) \<le> snd (work_block s diff w j c acc)
   \<or> num_gt (Some (snd (work_block s diff w j c acc))) diff"
proof (induct j c acc rule: work_block_induct[where w = w and diff = diff and s = s])
  case (1 j c acc)
  show ?case
  proof (cases "j < w \<and> \<not> num_gt (Some (c + 1)) diff")
    case True
    with 1 show ?thesis by (subst (1 2) work_block_unfold) auto
  next
    case False
    then show ?thesis by (subst (1 2) work_block_unfold) auto
  qed
qed

lemma work_block_counter_mono: "c \<le> snd (work_block s diff w j c acc)"
proof (induct j c acc rule: work_block_induct[where w = w and diff = diff and s = s])
  case (1 j c acc)
  show ?case
  proof (cases "j < w \<and> \<not> num_gt (Some (c + 1)) diff")
    case True
    with 1 show ?thesis by (subst work_block_unfold) auto
  next
    case False
    then show ?thesis by (subst work_block_unfold) auto
  qed
qed

lemma work_block_counter_less:
  assumes "j < w"
  shows "c < snd (work_block s diff w j c acc)"
proof (cases "num_gt (Some (c + 1)) diff")
  case True
  with assms show ?thesis by (subst work_block_unfold) simp
next
  case False
  have "c + 1 \<le> snd (work_block s diff w (j + 1) (c + 1) (acc @ [schedule_entry s c]))"
    by (rule work_block_counter_mono)
  with assms False show ?thesis by (subst work_block_unfold) simp
qed

lemma schedule_loop_returns:
  assumes "1 \<le> w" and "0 \<le> off"
  shows "\<exists>arr. schedule_loop s diff w off c acc = Some arr"
proof (cases diff)
  case None
  then show ?thesis by (subst schedule_loop.simps) (simp add: num_le_def)
next
  case (Some d)
  show ?thesis
  proof (induct "nat (d + 1 - c)" arbitrary: c acc rule: less_induct)
    case less
    show ?case
    proof (cases "c \<le> d")
      case False
      then show ?thesis using Some by (subst schedule_loop.simps) (simp add: num_le_def)
    next
      case True
      let ?b = "work_block s diff w 0 c acc"
      have "c < snd ?b" using assms(1) by (intro work_block_counter_less) simp
      with assms(2) True have "nat (d + 1 - (snd ?b + off)) < nat (d + 1 - c)" by simp
      from less[OF this]
      obtain arr where "schedule_loop s diff w off (snd ?b + off) (fst ?b) = Some arr" by blast
      with True Some show ?thesis
        by (subst schedule_loop.simps) (simp add: num_le_def Let_def)
    qed
  qed
qed

section \<open>Lemmas: the schedule as a cycle\<close>

lemma work_block_entries:
  assumes "c \<le> d" and "j < w"
  shows "work_block s (Some d) w j c acc
         = (acc @ map (schedule_entry s) [c..min (c + (w - j) - 1) d], min (c + (w - j) - 1) d + 1)"
  using assms
proof (induct j c acc rule: work_block_induct[where w = w and diff = "Some d" and s = s])
  case (1 j c acc)
  show ?case
  proof (cases "c + 1 > d")
    case True
    with 1(2,3) have m: "min (c + (w - j) - 1) d = c" by simp
    from True 1(3) show ?thesis
      unfolding m by (subst work_block_unfold) (simp add: num_gt_def num_lt_def)
  next
    case False
    note cd = this
    show ?thesis
    proof (cases "j + 1 < w")
      case True
      have ih: "work_block s (Some d) w (j + 1) (c + 1) (acc @ [schedule_entry s c])
          = ((acc @ [schedule_entry s c]) @ map (schedule_entry s)
               [c + 1..min (c + 1 + (w - (j + 1)) - 1) d],
             min (c + 1 + (w - (j + 1)) - 1) d + 1)"
        using 1(1) 1(3) cd True by (simp add: num_gt_def num_lt_def)
      have e: "c + 1 + (w - (j + 1)) - 1 = c + (w - j) - 1" by simp
      have u: "[c..min (c + (w - j) - 1) d] = c # [c + 1..min (c + (w - j) - 1) d]"
        using True cd by (subst upto_rec1) simp_all
      from 1(3) cd show ?thesis
        by (subst work_block_unfold) (simp add: num_gt_def num_lt_def ih e u)
    next
      case False
      with 1(3) have jw: "j + 1 = w" by simp
      then have m: "min (c + (w - j) - 1) d = c" using 1(2) by simp
      have stop: "work_block s (Some d) w (j + 1) (c + 1) (acc @ [schedule_entry s c])
          = (acc @ [schedule_entry s c], c + 1)"
        using jw by (subst work_block_unfold) simp
      from 1(3) cd show ?thesis
        unfolding m by (subst work_block_unfold) (simp add: num_gt_def num_lt_def stop)
    qed
  qed
qed


lemma filter_upto_all:
  assumes "\<And>k. a \<le> k \<Longrightarrow> k \<le> b \<Longrightarrow> P k"
  shows "filter P [a..b] = [a..b]"
  using assms by (intro filter_True) simp

lemma filter_upto_none:
  assumes "\<And>k. a \<le> k \<Longrightarrow> k \<le> b \<Longrightarrow> \<not> P k"
  shows "filter P [a..b] = []"
  using assms by (simp add: filter_empty_conv)

lemma filter_upto_skip:
  assumes "a \<le> b" and "\<And>k. a \<le> k \<Longrightarrow> k < b \<Longrightarrow> \<not> P k"
  shows "filter P [a..d] = filter P [b..d]"
proof (cases "b \<le> d")
  case True
  have "[a..d] = [a..b - 1] @ [b..d]" using assms(1) True by (rule upto_split1)
  moreover have "filter P [a..b - 1] = []" using assms(2) by (intro filter_upto_none) simp
  ultimately show ?thesis by simp
next
  case False
  then have "filter P [a..d] = []" using assms(2) by (intro filter_upto_none) simp
  with False show ?thesis by simp
qed

lemma schedule_loop_cycle:
  assumes "1 \<le> w" and "0 \<le> off"
  shows "schedule_loop s (Some d) w off c acc
         = Some (acc @ map (schedule_entry s) (filter (\<lambda>k. (k - c) mod (w + off) < w) [c..d]))"
proof (induct "nat (d + 1 - c)" arbitrary: c acc rule: less_induct)
  case less
  let ?p = "w + off"
  show ?case
  proof (cases "c \<le> d")
    case False
    then show ?thesis by (subst schedule_loop.simps) (simp add: num_le_def)
  next
    case True
    note cd = this
    let ?e = "min (c + (w - 0) - 1) d"
    have blk: "work_block s (Some d) w 0 c acc = (acc @ map (schedule_entry s) [c..?e], ?e + 1)"
      using cd assms(1) by (intro work_block_entries) simp_all
    have step: "schedule_loop s (Some d) w off c acc
        = schedule_loop s (Some d) w off (?e + 1 + off) (acc @ map (schedule_entry s) [c..?e])"
      using cd by (subst schedule_loop.simps) (simp add: num_le_def Let_def blk)
    show ?thesis
    proof (cases "d \<le> c + w - 1")
      case True
      then have e: "?e = d" by simp
      have "schedule_loop s (Some d) w off (d + 1 + off) (acc @ map (schedule_entry s) [c..d])
          = Some (acc @ map (schedule_entry s) [c..d])"
        using assms(2) by (subst schedule_loop.simps) (simp add: num_le_def)
      moreover have "filter (\<lambda>k. (k - c) mod ?p < w) [c..d] = [c..d]"
      proof (rule filter_upto_all)
        fix k assume "c \<le> k" "k \<le> d"
        with True assms have "0 \<le> k - c" "k - c < ?p" "k - c < w" by simp_all
        then show "(k - c) mod ?p < w" by simp
      qed
      ultimately show ?thesis unfolding step e by simp
    next
      case False
      then have e: "?e = c + w - 1" by simp
      let ?c' = "c + w + off"
      have step': "schedule_loop s (Some d) w off c acc
          = schedule_loop s (Some d) w off ?c' (acc @ map (schedule_entry s) [c..c + w - 1])"
        unfolding step e by simp
      have "nat (d + 1 - ?c') < nat (d + 1 - c)" using cd assms by simp
      from less[OF this]
      have ih: "schedule_loop s (Some d) w off ?c' (acc @ map (schedule_entry s) [c..c + w - 1])
          = Some ((acc @ map (schedule_entry s) [c..c + w - 1])
              @ map (schedule_entry s) (filter (\<lambda>k. (k - ?c') mod ?p < w) [?c'..d]))" .
      have sp: "[c..d] = [c..c + w - 1] @ [c + w..d]"
        using upto_split1[of c "c + w" d] False assms(1) by simp
      have f1: "filter (\<lambda>k. (k - c) mod ?p < w) [c..c + w - 1] = [c..c + w - 1]"
      proof (rule filter_upto_all)
        fix k assume "c \<le> k" "k \<le> c + w - 1"
        with assms have "0 \<le> k - c" "k - c < ?p" "k - c < w" by simp_all
        then show "(k - c) mod ?p < w" by simp
      qed
      have f2: "filter (\<lambda>k. (k - c) mod ?p < w) [c + w..d]
          = filter (\<lambda>k. (k - c) mod ?p < w) [?c'..d]"
      proof (rule filter_upto_skip)
        show "c + w \<le> ?c'" using assms(2) by simp
      next
        fix k assume "c + w \<le> k" "k < ?c'"
        with assms have "0 \<le> k - c" "k - c < ?p" "w \<le> k - c" by simp_all
        then show "\<not> (k - c) mod ?p < w" by simp
      qed
      have f3: "filter (\<lambda>k. (k - c) mod ?p < w) [?c'..d]
          = filter (\<lambda>k. (k - ?c') mod ?p < w) [?c'..d]"
      proof (rule filter_cong [OF refl])
        fix k
        have "k - c = (k - ?c') + ?p" by simp
        then have "(k - c) mod ?p = (k - ?c') mod ?p" by (simp only: mod_add_self2)
        then show "((k - c) mod ?p < w) = ((k - ?c') mod ?p < w)" by simp
      qed
      show ?thesis unfolding step' ih sp by (simp add: f1 f2 f3)
    qed
  qed
qed

lemma schedule_loop_from_start:
  assumes "1 \<le> w" and "0 \<le> off"
  shows "schedule_loop s (Some d) w off 0 [] = Some (map (schedule_entry s) (cycle_days d w off))"
  using schedule_loop_cycle [OF assms, of s d 0 "[]"] by (simp add: cycle_days_def)

section \<open>Lemmas: dates to strings and back\<close>

lemma setUTCDate_add_days:
  assumes "\<bar>t + k * msPerDay\<bar> \<le> 8640000000000000"
  shows "setUTCDate (Some t) (num_add (getUTCDate (Some t)) (Some k)) = Some (t + k * msPerDay)"
proof -
  have "MakeDate (MakeDay (YearFromTime t) (MonthFromTime t) (DateFromTime t + k))
          (TimeWithinDay t) = (Day t + k) * msPerDay + TimeWithinDay t"
    by (simp add: MakeDate_def MakeDay_of_fields)
  also have "\<dots> = t + k * msPerDay"
    using Day_TimeWithinDay[of t] by (simp add: algebra_simps)
  finally show ?thesis
    using assms by (simp add: setUTCDate_def getUTCDate_def num_add_def TimeClip_in_range)
qed

lemma Day_of_days: "Day (n * msPerDay) = n"
  by (simp add: Day_def msPerDay_def)

lemma fields_of_day:
  "YearFromTime t = YearFromTime (Day t * msPerDay)"
  "MonthFromTime t = MonthFromTime (Day t * msPerDay)"
  "DateFromTime t = DateFromTime (Day t * msPerDay)"
  by (simp_all add: YearFromTime_def MonthFromTime_def DateFromTime_def DayWithinYear_def
      InLeapYear_def Day_of_days)

lemma schedule_entry_of_day:
  assumes "\<bar>t\<bar> \<le> 8640000000000000" and "\<bar>t + k * msPerDay\<bar> \<le> 8640000000000000"
  shows "schedule_entry (Some t) k = dmy_of_day (Day t + k)"
proof -
  let ?u = "t + k * msPerDay"
  have c: "new_Date_copy (Some t) = Some t"
    using assms(1) by (simp add: new_Date_copy_def new_Date_number_def TimeClip_in_range)
  have s: "setUTCDate (Some t) (num_add (getUTCDate (Some t)) (Some k)) = Some ?u"
    using assms(2) by (rule setUTCDate_add_days)
  have d: "Day ?u = Day t + k" by (rule Day_add_days)
  have f: "YearFromTime ?u = YearFromTime ((Day t + k) * msPerDay)"
    "MonthFromTime ?u = MonthFromTime ((Day t + k) * msPerDay)"
    "DateFromTime ?u = DateFromTime ((Day t + k) * msPerDay)"
    using fields_of_day[of ?u] unfolding d by simp_all
  show ?thesis
    unfolding schedule_entry_def Let_def c s
    by (simp add: getUTCDate_def getUTCMonth_def getUTCFullYear_def num_add_def num_lt_def f
        dmy_of_day_def dmy_def pad2_def Let_def)
qed

lemma upto_0_11: "[0..11] = [0, 1, 2, 3, 4, 5, 6, 7, 8, 9, 10, 11::int]"
  by (simp add: upto_rec1)

lemma month_cases:
  fixes m :: int
  assumes "0 \<le> m" and "m \<le> 11"
  shows "m = 0 \<or> m = 1 \<or> m = 2 \<or> m = 3 \<or> m = 4 \<or> m = 5 \<or> m = 6 \<or> m = 7
      \<or> m = 8 \<or> m = 9 \<or> m = 10 \<or> m = 11"
proof -
  have "m \<in> set [0..11]" using assms by simp
  then show ?thesis unfolding upto_0_11 by simp
qed

lemma month_table:
  fixes l m d w :: int
  assumes "l = 0 \<or> l = 1" and "0 \<le> m" and "m \<le> 11" and "1 \<le> d"
    and "d \<le> (if m = 1 then 28 + l
                else if m = 3 then 30 else if m = 5 then 30 else if m = 8 then 30
                else if m = 10 then 30 else 31)"
    and "w = DayFromMonth m l + d - 1"
  shows "0 \<le> w \<and> w < 365 + l
    \<and> (if w < 31 then 0 else if w < 59 + l then 1 else if w < 90 + l then 2
        else if w < 120 + l then 3 else if w < 151 + l then 4 else if w < 181 + l then 5
        else if w < 212 + l then 6 else if w < 243 + l then 7 else if w < 273 + l then 8
        else if w < 304 + l then 9 else if w < 334 + l then 10 else 11) = m"
proof -
  note mcases = month_cases [OF assms(2,3)]
  from mcases assms(1,4,5,6) show ?thesis
    by (elim disjE) (simp_all add: DayFromMonth_def)
qed

lemma MakeDay_valid_fields:
  assumes "0 \<le> m" and "m \<le> 11" and "1 \<le> d" and "d \<le> DaysInMonth y (m + 1)"
    and "Day t = MakeDay y m d"
  shows "YearFromTime t = y \<and> MonthFromTime t = m \<and> DateFromTime t = d"
proof -
  define l where "l = (if DaysInYear y = 365 then 0 else (1::int))"
  define w where "w = DayFromMonth m l + d - 1"
  have l01: "l = 0 \<or> l = 1" by (simp add: l_def)
  have ly: "DaysInYear y = 365 + l" using DaysInYear_cases[of y] by (auto simp: l_def)
  have mm: "m div 12 = 0" "m mod 12 = m" using assms(1,2) by simp_all
  have n: "Day t = DayFromYear y + w"
    using assms(5) by (simp add: MakeDay_def Let_def mm l_def w_def)
  have dim: "DaysInMonth y (m + 1) = (if m = 1 then 28 + l
                else if m = 3 then 30 else if m = 5 then 30 else if m = 8 then 30
                else if m = 10 then 30 else 31)"
    by (simp add: DaysInMonth_def l_def)
  note T = month_table [OF l01 assms(1,2,3) assms(4)[unfolded dim] w_def]
  have y: "YearFromTime t = y"
    unfolding YearFromTime_def
    by (rule YearFromDay_unique) (use n T ly DayFromYear_Suc[of y] in simp_all)
  have dw: "DayWithinYear t = w" by (simp add: DayWithinYear_def y n)
  have il: "InLeapYear t = l" by (simp add: InLeapYear_def y l_def)
  have mo: "MonthFromTime t = m"
    unfolding MonthFromTime_def Let_def dw il using T by simp
  note mcases = month_cases [OF assms(1,2)]
  have "DateFromTime t = d"
    unfolding DateFromTime_def Let_def dw il mo
    using mcases by (elim disjE) (simp_all add: w_def DayFromMonth_def)
  with y mo show ?thesis by simp
qed

lemma upt_0_10: "[0..<10] = [0, 1, 2, 3, 4, 5, 6, 7, 8, 9]"
  by (simp add: upt_rec)

lemma digit_value_digit_char:
  assumes "n < 10"
  shows "digit_value (digit_char n) = Some (int n)"
proof -
  have "\<forall>k \<in> set [0..<10]. digit_value (digit_char k) = Some (int k)"
    unfolding upt_0_10 by (simp add: digit_value_def digit_char_def)
  moreover have "n \<in> set [0..<10]" using assms by simp
  ultimately show ?thesis by blast
qed

lemma digit_char_not_dash:
  assumes "n < 10"
  shows "digit_char n \<noteq> CHR ''-''"
proof -
  have "\<forall>k \<in> set [0..<10]. digit_char k \<noteq> CHR ''-''"
    unfolding upt_0_10 by (simp add: digit_char_def)
  moreover have "n \<in> set [0..<10]" using assms by simp
  ultimately show ?thesis by blast
qed

lemma decimal_from_append:
  "decimal_from a (xs @ ys) = (case decimal_from a xs of None \<Rightarrow> None | Some b \<Rightarrow> decimal_from b ys)"
  by (induct xs arbitrary: a) (simp_all split: option.splits)

lemma decimal_from_digits: "decimal_from 0 (digits n) = Some (int n)"
proof (induct n rule: digits.induct)
  case (1 n)
  show ?case
  proof (cases "n < 10")
    case True
    then show ?thesis by (subst digits.simps) (simp add: digit_value_digit_char)
  next
    case False
    then have ih: "decimal_from 0 (digits (n div 10)) = Some (int (n div 10))" by (rule 1)
    have "n mod 10 < 10" by simp
    then have dv: "digit_value (digit_char (n mod 10)) = Some (int (n mod 10))"
      by (rule digit_value_digit_char)
    have "10 * int (n div 10) + int (n mod 10) = int n"
      by (simp add: zdiv_int zmod_int)
    with False show ?thesis
      by (subst digits.simps) (simp add: decimal_from_append ih dv)
  qed
qed

lemma length_digits:
  "n < 10 ^ k \<Longrightarrow> 0 < k \<Longrightarrow> length (digits n) \<le> k"
proof (induct n arbitrary: k rule: digits.induct)
  case (1 n)
  show ?case
  proof (cases "n < 10")
    case True
    then show ?thesis using 1(3) by (subst digits.simps) simp
  next
    case False
    from 1(3) obtain j where k: "k = Suc j" by (cases k) simp_all
    have j: "0 < j"
    proof (rule ccontr)
      assume "\<not> 0 < j"
      with k 1(2) have "n < 10" by simp
      with False show False by simp
    qed
    have "n div 10 < 10 ^ j" using 1(2) k by (simp add: less_mult_imp_div_less)
    with False j have "length (digits (n div 10)) \<le> j" by (intro 1(1))
    with False k show ?thesis by (subst digits.simps) simp
  qed
qed

lemma digits_not_empty: "digits n \<noteq> []"
  by (subst digits.simps) simp

lemma length_zero_pad:
  assumes "0 \<le> n" and "n < 10 ^ w" and "0 < w"
  shows "length (zero_pad w n) = w"
proof -
  have "nat n < 10 ^ w" using assms(1,2) by (simp add: nat_less_iff)
  then have "length (digits (nat n)) \<le> w" using assms(3) by (rule length_digits)
  then show ?thesis by (simp add: zero_pad_def)
qed

lemma decimal_from_zeros: "decimal_from 0 (replicate k CHR ''0'' @ xs) = decimal_from 0 xs"
  by (induct k) (simp_all add: digit_value_def)

lemma zero_pad_number: "0 \<le> n \<Longrightarrow> decimal_from 0 (zero_pad w n) = Some n"
  by (simp add: zero_pad_def decimal_from_zeros decimal_from_digits)


lemma digit_value_char:
  assumes "digit_value c = Some v"
  shows "0 \<le> v \<and> v < 10 \<and> c = digit_char (nat v)"
  using assms by (auto simp: digit_value_def digit_char_def split: if_splits)

lemma zero_pad_snoc:
  assumes "0 \<le> u" and "0 \<le> v" and "v < 10" and "0 < n"
  shows "zero_pad (Suc n) (10 * u + v) = zero_pad n u @ [digit_char (nat v)]"
proof (cases "u = 0")
  case True
  have "nat v < 10" using assms(2,3) by linarith
  then have "digits (nat v) = [digit_char (nat v)]" by (subst digits.simps) simp
  moreover have "digits 0 = [digit_char 0]" by (subst digits.simps) simp
  moreover have "replicate (n - Suc 0) CHR ''0'' @ [digit_char 0] = replicate n CHR ''0''"
    using assms(4) by (cases n) (simp_all add: digit_char_def replicate_append_same)
  ultimately show ?thesis using True by (simp add: zero_pad_def)
next
  case False
  with assms(1) have u: "1 \<le> u" by simp
  have nn: "nat (10 * u + v) = 10 * nat u + nat v" using assms(1,2) by (simp add: nat_add_distrib nat_mult_distrib)
  have "\<not> nat (10 * u + v) < 10" using u assms(2) by simp
  moreover have "nat (10 * u + v) div 10 = nat u" "nat (10 * u + v) mod 10 = nat v"
    unfolding nn using assms(2,3) by simp_all
  ultimately have "digits (nat (10 * u + v)) = digits (nat u) @ [digit_char (nat v)]"
    by (subst digits.simps) simp
  then show ?thesis by (simp add: zero_pad_def)
qed

lemma decimal_from_zero_pad:
  "xs \<noteq> [] \<Longrightarrow> decimal_from 0 xs = Some v \<Longrightarrow> zero_pad (length xs) v = xs \<and> 0 \<le> v"
proof (induct xs arbitrary: v rule: rev_induct)
  case Nil
  then show ?case by simp
next
  case (snoc c ys)
  from snoc(3) obtain u where u: "decimal_from 0 ys = Some u" and r: "decimal_from u [c] = Some v"
    by (auto simp: decimal_from_append split: option.splits)
  from r obtain dv where dv: "digit_value c = Some dv" and v: "v = 10 * u + dv"
    by (auto split: option.splits)
  note c = digit_value_char [OF dv]
  show ?case
  proof (cases "ys = []")
    case True
    with u have "u = 0" by simp
    moreover have "nat dv < 10" using c by linarith
    then have "digits (nat dv) = [digit_char (nat dv)]" by (subst digits.simps) simp
    ultimately show ?thesis using True v c by (simp add: zero_pad_def)
  next
    case False
    from snoc(1) [OF False u] have ih: "zero_pad (length ys) u = ys" "0 \<le> u" by simp_all
    have "0 < length ys" using False by simp
    from zero_pad_snoc [OF ih(2) _ _ this, of dv] c ih v show ?thesis by simp
  qed
qed

lemma number_zero_pad:
  assumes "decimal_from 0 xs = Some v" and "length xs = w" and "0 < w"
  shows "zero_pad w v = xs \<and> 0 \<le> v"
proof -
  have "xs \<noteq> []" using assms(2,3) by auto
  from decimal_from_zero_pad [OF this assms(1)] assms(2)
  show ?thesis by simp
qed

lemma length_digits_lower: "10 ^ k \<le> n \<Longrightarrow> k < length (digits n)"
proof (induct n arbitrary: k rule: digits.induct)
  case (1 n)
  show ?case
  proof (cases k)
    case 0
    then show ?thesis using digits_not_empty[of n] by simp
  next
    case (Suc j)
    with 1(2) have "10 * 10 ^ j \<le> n" by simp
    moreover have "(1::nat) \<le> 10 ^ j" by simp
    ultimately have n: "\<not> n < 10" by linarith
    from \<open>10 * 10 ^ j \<le> n\<close> have "10 ^ j \<le> n div 10" by simp
    with n have "j < length (digits (n div 10))" by (intro 1(1))
    with n Suc show ?thesis by (subst digits.simps) simp
  qed
qed

lemma zero_pad_bound:
  assumes "zero_pad w v = xs" and "length xs = w" and "0 \<le> v"
  shows "v < 10 ^ w"
proof (rule ccontr)
  assume "\<not> v < 10 ^ w"
  then have "10 ^ w \<le> nat v" using assms(3) by (simp add: le_nat_iff)
  then have "w < length (digits (nat v))" by (rule length_digits_lower)
  then have "w < length (zero_pad w v)" by (simp add: zero_pad_def)
  with assms show False by simp
qed

lemma digits_no_dash: "CHR ''-'' \<notin> set (digits n)"
proof (induct n rule: digits.induct)
  case (1 n)
  show ?case
  proof (cases "n < 10")
    case True
    then show ?thesis using digit_char_not_dash[of n] by (subst digits.simps) auto
  next
    case False
    then have "CHR ''-'' \<notin> set (digits (n div 10))" by (rule 1)
    moreover have "digit_char (n mod 10) \<noteq> CHR ''-''" by (rule digit_char_not_dash) simp
    ultimately show ?thesis using False by (subst digits.simps) auto
  qed
qed

lemma split_no_separator: "c \<notin> set xs \<Longrightarrow> split c xs = [xs]"
  by (induct xs) auto

lemma split_at_separator: "c \<notin> set xs \<Longrightarrow> split c (xs @ c # ys) = xs # split c ys"
  by (induct xs) auto

lemma NumberToString_nonneg: "0 \<le> n \<Longrightarrow> NumberToString (Some n) = digits (nat n)"
  by (simp add: NumberToString_def)

lemma digit_chars:
  assumes "n < 10"
  shows "digit_char n \<in> set ''0123456789''"
proof -
  have "\<forall>k \<in> set [0..<10]. digit_char k \<in> set ''0123456789''"
    unfolding upt_0_10 by (simp add: digit_char_def)
  moreover have "n \<in> set [0..<10]" using assms by simp
  ultimately show ?thesis by blast
qed

lemma digits_chars: "set (digits n) \<subseteq> set ''0123456789''"
proof (induct n rule: digits.induct)
  case (1 n)
  show ?case
  proof (cases "n < 10")
    case True
    then show ?thesis using digit_chars[of n] by (subst digits.simps) simp
  next
    case False
    then have "set (digits (n div 10)) \<subseteq> set ''0123456789''" by (rule 1)
    moreover have "digit_char (n mod 10) \<in> set ''0123456789''" by (rule digit_chars) simp
    ultimately show ?thesis using False by (subst digits.simps) simp
  qed
qed

text \<open>\<open>StringToNumber\<close> reads a string of decimal digits as the integer it writes.\<close>

lemma radix_prefix_keys:
  "\<forall>p \<in> set [''0x'', ''0X'', ''0o'', ''0O'', ''0b'', ''0B'']. length p = 2 \<and> p ! 1 \<notin> set ''0123456789''"
  by simp

lemma StringToNumber_decimal:
  assumes "s \<noteq> []" and "set s \<subseteq> set ''0123456789''"
  shows "StringToNumber s = map_option of_int (decimal_from 0 s)"
proof -
  have ch: "\<And>c. c \<in> set s \<Longrightarrow> c \<in> set ''0123456789''" using assms(2) by blast
  have hd: "hd s \<in> set s" and lst: "last s \<in> set s" using assms(1) by simp_all
  have ws: "\<not> StrWhiteSpaceChar (hd s)" "\<not> StrWhiteSpaceChar (last s)"
    using ch[OF hd] ch[OF lst] by (auto simp: StrWhiteSpaceChar_def)
  have "dropWhile StrWhiteSpaceChar s = s" using ws(1) by (simp add: dropWhile_eq_self_iff)
  moreover have "dropWhile StrWhiteSpaceChar (rev s) = rev s"
    using ws(2) assms(1) by (simp add: dropWhile_eq_self_iff hd_rev)
  ultimately have t: "trim s = s" by (simp add: trim_def)
  have "take 2 s \<notin> set [''0x'', ''0X'', ''0o'', ''0O'', ''0b'', ''0B'']"
  proof
    assume "take 2 s \<in> set [''0x'', ''0X'', ''0o'', ''0O'', ''0b'', ''0B'']"
    with radix_prefix_keys have l: "length (take 2 s) = 2"
      and n: "take 2 s ! 1 \<notin> set ''0123456789''" by blast+
    from l have "1 < length s" by simp
    then have "s ! 1 \<in> set s" "take 2 s ! 1 = s ! 1" by simp_all
    with n ch show False by metis
  qed
  then have r: "radix_prefix (take 2 s) = None"
    unfolding radix_prefix_def by (simp only: map_of_eq_None_iff) simp
  have "hd s \<in> set ''0123456789''" using ch[OF hd] .
  then have sg: "hd s \<noteq> CHR ''+''" "hd s \<noteq> CHR ''-''" by auto
  have "\<And>c. c \<in> set s \<Longrightarrow> c \<noteq> CHR ''e'' \<and> c \<noteq> CHR ''E''"
  proof -
    fix c assume "c \<in> set s"
    then have "c \<in> set ''0123456789''" by (rule ch)
    then show "c \<noteq> CHR ''e'' \<and> c \<noteq> CHR ''E''" by auto
  qed
  then have e: "takeWhile (\<lambda>c. c \<noteq> CHR ''e'' \<and> c \<noteq> CHR ''E'') s = s"
    "dropWhile (\<lambda>c. c \<noteq> CHR ''e'' \<and> c \<noteq> CHR ''E'') s = []"
    by (simp_all add: takeWhile_eq_all_conv dropWhile_eq_Nil_conv)
  have "\<And>c. c \<in> set s \<Longrightarrow> c \<noteq> CHR ''.''"
  proof -
    fix c assume "c \<in> set s"
    then have "c \<in> set ''0123456789''" by (rule ch)
    then show "c \<noteq> CHR ''.''" by auto
  qed
  then have d: "takeWhile (\<lambda>c. c \<noteq> CHR ''.'') s = s" "dropWhile (\<lambda>c. c \<noteq> CHR ''.'') s = []"
    by (simp_all add: takeWhile_eq_all_conv dropWhile_eq_Nil_conv)
  have m: "mantissa s = map_option of_int (decimal_from 0 s)"
    using assms(1) by (simp add: mantissa_def Let_def d)
  have u: "StrUnsignedDecimalLiteral s = map_option of_int (decimal_from 0 s)"
    by (simp add: StrUnsignedDecimalLiteral_def Let_def e m)
  show ?thesis
    using assms(1) by (simp add: StringToNumber_def Let_def t r sg u)
qed

lemma digits_number: "StringToNumber (digits n) = Some (of_nat n)"
  using StringToNumber_decimal [OF digits_not_empty digits_chars, of n]
  by (simp add: decimal_from_digits)

lemma pad2_number: "0 \<le> n \<Longrightarrow> StringToNumber (pad2 n) = Some (of_int n)"
proof -
  assume n: "0 \<le> n"
  have "pad2 n \<noteq> []" using digits_not_empty by (simp add: pad2_def NumberToString_nonneg n)
  moreover have "set (pad2 n) \<subseteq> set ''0123456789''"
    using digits_chars[of "nat n"] by (simp add: pad2_def NumberToString_nonneg n)
  ultimately have "StringToNumber (pad2 n) = map_option of_int (decimal_from 0 (pad2 n))"
    by (rule StringToNumber_decimal)
  also have "decimal_from 0 (pad2 n) = Some n"
    using n by (simp add: pad2_def NumberToString_nonneg decimal_from_digits digit_value_def)
  finally show ?thesis by simp
qed

lemma pad2_no_dash: "0 \<le> n \<Longrightarrow> CHR ''-'' \<notin> set (pad2 n)"
  by (simp add: pad2_def NumberToString_nonneg digits_no_dash)

lemma year_number: "0 \<le> n \<Longrightarrow> StringToNumber (NumberToString (Some n)) = Some (of_int n)"
  by (simp add: NumberToString_nonneg digits_number)

lemma split_dmy:
  assumes "0 \<le> d" and "0 \<le> m" and "0 \<le> y"
  shows "split CHR ''-'' (dmy d m y) = [pad2 d, pad2 m, NumberToString (Some y)]"
proof -
  have "CHR ''-'' \<notin> set (NumberToString (Some y))"
    using assms(3) by (simp add: NumberToString_nonneg digits_no_dash)
  then have 3: "split CHR ''-'' (NumberToString (Some y)) = [NumberToString (Some y)]"
    by (rule split_no_separator)
  have 2: "split CHR ''-'' (pad2 m @ CHR ''-'' # NumberToString (Some y))
      = pad2 m # split CHR ''-'' (NumberToString (Some y))"
    using assms(2) by (intro split_at_separator pad2_no_dash)
  have 1: "split CHR ''-'' (pad2 d @ CHR ''-'' # pad2 m @ CHR ''-'' # NumberToString (Some y))
      = pad2 d # split CHR ''-'' (pad2 m @ CHR ''-'' # NumberToString (Some y))"
    using assms(1) by (intro split_at_separator pad2_no_dash)
  show ?thesis unfolding dmy_def using 1 2 3 by simp
qed

lemma DatePeriod_fields:
  assumes "0 \<le> d" and "0 \<le> m" and "0 \<le> y"
  shows "ToNumber (element (split CHR ''-'' (dmy d m y)) 0) = Some (of_int d)"
    and "ToNumber (element (split CHR ''-'' (dmy d m y)) 1) = Some (of_int m)"
    and "ToNumber (element (split CHR ''-'' (dmy d m y)) 2) = Some (of_int y)"
  using assms
  by (simp_all add: split_dmy element_def ToNumber_def pad2_number year_number)

section \<open>Lemmas: getWorkSchedule on a period of valid dates\<close>

lemma MakeDay_calendar_bounds:
  assumes "0 \<le> y" and "y \<le> 9999" and "1 \<le> m" and "m \<le> 12"
    and "1 \<le> d" and "d \<le> DaysInMonth y m"
  shows "- 720000 \<le> MakeDay y (m - 1) d \<and> MakeDay y (m - 1) d \<le> 3000000"
proof -
  define l where "l = (if DaysInYear y = 365 then 0 else (1::int))"
  have l01: "l = 0 \<or> l = 1" by (simp add: l_def)
  have mm: "(m - 1) div 12 = 0" "(m - 1) mod 12 = m - 1" using assms(3,4) by simp_all
  have n: "MakeDay y (m - 1) d = DayFromYear y + (DayFromMonth (m - 1) l + d - 1)"
    by (simp add: MakeDay_def Let_def mm l_def)
  have dim: "DaysInMonth y (m - 1 + 1) = (if m - 1 = 1 then 28 + l
                else if m - 1 = 3 then 30 else if m - 1 = 5 then 30 else if m - 1 = 8 then 30
                else if m - 1 = 10 then 30 else 31)"
    by (simp add: DaysInMonth_def l_def)
  have "0 \<le> m - 1" "m - 1 \<le> 11" "d \<le> DaysInMonth y (m - 1 + 1)" using assms by simp_all
  note T = month_table [OF l01 this(1,2) assms(5) this(3)[unfolded dim] refl]
  have w: "0 \<le> DayFromMonth (m - 1) l + d - 1" "DayFromMonth (m - 1) l + d - 1 < 366"
    using T l01 by auto
  have "146097 * y \<le> 400 * DayFromYear y + 287811596" by (rule DayFromYear_lower)
  with assms(1) have lo: "- 720000 \<le> DayFromYear y" by simp
  have "400 * DayFromYear y + 287810501 \<le> 146097 * y" by (rule DayFromYear_upper)
  with assms(2) have hi: "DayFromYear y \<le> 2990000" by simp
  from lo hi w show ?thesis unfolding n by simp
qed

lemma new_Date_local_valid:
  assumes "valid_date d m y" and "- msPerDay < tza" and "tza < msPerDay"
    and "LocalTZA H = (\<lambda>t isUTC. tza)"
  shows "new_Date_local H (Some (of_int y)) (real_sub (Some (of_int m)) (Some 1))
           (Some (of_int d))
         = Some (MakeDay y (m - 1) d * msPerDay - tza)"
    and "\<bar>MakeDay y (m - 1) d * msPerDay - tza\<bar> \<le> 300000000000000"
proof -
  from assms(1) have v: "0 \<le> y" "y \<le> 9999" "1 \<le> m" "m \<le> 12" "1 \<le> d" "d \<le> DaysInMonth y m"
    by (simp_all add: valid_date_def)
  have b: "- 720000 \<le> MakeDay y (m - 1) d" "MakeDay y (m - 1) d \<le> 3000000"
    using MakeDay_calendar_bounds [OF v] by simp_all
  have "- 720000 * msPerDay \<le> MakeDay y (m - 1) d * msPerDay"
    "MakeDay y (m - 1) d * msPerDay \<le> 3000000 * msPerDay"
    using b by (simp_all add: msPerDay_def)
  with assms(2,3) show r: "\<bar>MakeDay y (m - 1) d * msPerDay - tza\<bar> \<le> 300000000000000"
    by (simp add: msPerDay_def)
  from assms(1) have "99 < y" by (simp add: valid_date_def)
  have ti: "\<And>n. ToIntegerOrInfinity (of_int n) = n" by (simp add: ToIntegerOrInfinity_def)
  have tm: "ToIntegerOrInfinity (of_int m - 1) = m - 1" using ti [of "m - 1"] by simp
  from \<open>99 < y\<close> show "new_Date_local H (Some (of_int y)) (real_sub (Some (of_int m)) (Some 1))
           (Some (of_int d))
         = Some (MakeDay y (m - 1) d * msPerDay - tza)"
    using r
    by (simp add: new_Date_local_def real_sub_def Let_def ti tm UTC_def assms(4) MakeDate_def
        MakeTime_def TimeClip_in_range)
qed

lemma dmy_of_day_valid:
  assumes "valid_date d m y"
  shows "dmy_of_day (MakeDay y (m - 1) d) = dmy d m y"
proof -
  from assms have v: "0 \<le> m - 1" "m - 1 \<le> 11" "1 \<le> d" "d \<le> DaysInMonth y (m - 1 + 1)"
    by (simp_all add: valid_date_def)
  have "Day (MakeDay y (m - 1) d * msPerDay) = MakeDay y (m - 1) d" by (rule Day_of_days)
  from MakeDay_valid_fields [OF v this] show ?thesis
    by (simp add: dmy_of_day_def Let_def)
qed

lemma cycle_days_range: "k \<in> set (cycle_days diff w off) \<Longrightarrow> 0 \<le> k \<and> k \<le> diff"
  by (simp add: cycle_days_def)

lemma getWorkSchedule_cycle:
  assumes "valid_date d1 m1 y1" and "valid_date d2 m2 y2"
    and "- msPerDay < tza" and "tza < msPerDay"
    and "1 \<le> countWorkDays" and "0 \<le> countOffDays"
    and "LocalTZA H = (\<lambda>t isUTC. tza)"
  shows "getWorkSchedule H \<lparr>start = dmy d1 m1 y1, finish = dmy d2 m2 y2\<rparr>
           countWorkDays countOffDays
         = Some (map (\<lambda>k. dmy_of_day (MakeDay y1 (m1 - 1) d1 + (- tza) div msPerDay + k))
                   (cycle_days (MakeDay y2 (m2 - 1) d2 - MakeDay y1 (m1 - 1) d1)
                      countWorkDays countOffDays))"
proof -
  let ?n1 = "MakeDay y1 (m1 - 1) d1" and ?n2 = "MakeDay y2 (m2 - 1) d2"
  let ?t1 = "?n1 * msPerDay - tza" and ?t2 = "?n2 * msPerDay - tza"
  from assms(1) have p1: "0 \<le> d1" "0 \<le> m1" "0 \<le> y1" by (simp_all add: valid_date_def)
  from assms(2) have p2: "0 \<le> d2" "0 \<le> m2" "0 \<le> y2" by (simp_all add: valid_date_def)
  note s = new_Date_local_valid [OF assms(1,3,4,7)]
  note e = new_Date_local_valid [OF assms(2,3,4,7)]
  have c: "new_Date_copy (Some ?t1) = Some ?t1"
    using s(2) by (simp add: new_Date_copy_def new_Date_number_def TimeClip_in_range)
  have "?t2 - ?t1 = (?n2 - ?n1) * msPerDay" by (simp add: algebra_simps)
  then have diff: "Math_ceil_div (num_sub (Some ?t2) (Some ?t1)) msPerDay = Some (?n2 - ?n1)"
    by (simp add: Math_ceil_div_def num_sub_def msPerDay_def)
  have run: "getWorkSchedule H \<lparr>start = dmy d1 m1 y1, finish = dmy d2 m2 y2\<rparr>
           countWorkDays countOffDays
      = schedule_loop (Some ?t1) (Some (?n2 - ?n1)) countWorkDays countOffDays 0 []"
    unfolding getWorkSchedule_def Let_def DatePeriod.select_convs
      DatePeriod_fields [OF p1] DatePeriod_fields [OF p2] s(1) e(1) c diff ..
  have day1: "Day ?t1 = ?n1 + (- tza) div msPerDay"
  proof -
    have "?t1 = - tza + ?n1 * msPerDay" by simp
    then have "Day ?t1 = Day (- tza) + ?n1" by (simp only: Day_add_days)
    then show ?thesis by (simp add: Day_def)
  qed
  have entries: "map (schedule_entry (Some ?t1)) (cycle_days (?n2 - ?n1) countWorkDays countOffDays)
      = map (\<lambda>k. dmy_of_day (?n1 + (- tza) div msPerDay + k))
          (cycle_days (?n2 - ?n1) countWorkDays countOffDays)"
  proof (rule map_cong [OF refl])
    fix k assume "k \<in> set (cycle_days (?n2 - ?n1) countWorkDays countOffDays)"
    then have k: "0 \<le> k" "k \<le> ?n2 - ?n1" using cycle_days_range by blast+
    have "?t1 + k * msPerDay \<le> ?t2" "?t1 \<le> ?t1 + k * msPerDay"
      using k by (simp_all add: msPerDay_def algebra_simps)
    with s(2) e(2) have "\<bar>?t1 + k * msPerDay\<bar> \<le> 8640000000000000" by linarith
    moreover have "\<bar>?t1\<bar> \<le> 8640000000000000" using s(2) by linarith
    ultimately have "schedule_entry (Some ?t1) k = dmy_of_day (Day ?t1 + k)"
      by (intro schedule_entry_of_day)
    then show "schedule_entry (Some ?t1) k = dmy_of_day (?n1 + (- tza) div msPerDay + k)"
      by (simp only: day1)
  qed
  show ?thesis
    unfolding run schedule_loop_from_start [OF assms(5,6)] entries ..
qed

lemma cycle_days_ascending: "sorted_wrt (<) (cycle_days diff w off)"
proof -
  have "sorted_wrt (<) [0..diff]"
    using sorted_upto[of 0 diff] distinct_upto[of 0 diff] by (simp add: strict_sorted_iff)
  then show ?thesis unfolding cycle_days_def by (rule sorted_wrt_filter)
qed

lemma cycle_days_first:
  assumes "1 \<le> w" and "0 \<le> off" and "0 \<le> diff"
  shows "cycle_days diff w off = 0 # filter (\<lambda>k. k mod (w + off) < w) [1..diff]"
proof -
  have "[0..diff] = 0 # [0 + 1..diff]" using assms(3) by (subst upto_rec1) simp_all
  with assms(1) show ?thesis by (simp add: cycle_days_def)
qed

lemma getWorkSchedule_at_or_west_of_UTC:
  assumes "valid_date d1 m1 y1" and "valid_date d2 m2 y2"
    and "- msPerDay < tza" and "tza \<le> 0"
    and "1 \<le> countWorkDays" and "0 \<le> countOffDays"
    and "LocalTZA H = (\<lambda>t isUTC. tza)"
  shows "getWorkSchedule H \<lparr>start = dmy d1 m1 y1, finish = dmy d2 m2 y2\<rparr>
           countWorkDays countOffDays
         = Some (map (\<lambda>k. dmy_of_day (MakeDay y1 (m1 - 1) d1 + k))
                   (cycle_days (MakeDay y2 (m2 - 1) d2 - MakeDay y1 (m1 - 1) d1)
                      countWorkDays countOffDays))"
proof -
  have "0 \<le> - tza" "- tza < msPerDay" using assms(3,4) by simp_all
  then have z: "(- tza) div msPerDay = 0" by (rule div_pos_pos_trivial)
  have "tza < msPerDay" using assms(4) by (simp add: msPerDay_def)
  from getWorkSchedule_cycle [OF assms(1,2,3) this assms(5,6,7)] show ?thesis
    unfolding z by simp
qed

lemma getWorkSchedule_ahead_of_UTC:
  assumes "valid_date d1 m1 y1" and "valid_date d2 m2 y2"
    and "0 < tza" and "tza < msPerDay"
    and "1 \<le> countWorkDays" and "0 \<le> countOffDays"
    and "LocalTZA H = (\<lambda>t isUTC. tza)"
  shows "getWorkSchedule H \<lparr>start = dmy d1 m1 y1, finish = dmy d2 m2 y2\<rparr>
           countWorkDays countOffDays
         = Some (map (\<lambda>k. dmy_of_day (MakeDay y1 (m1 - 1) d1 - 1 + k))
                   (cycle_days (MakeDay y2 (m2 - 1) d2 - MakeDay y1 (m1 - 1) d1)
                      countWorkDays countOffDays))"
proof -
  have "- tza = msPerDay * (- 1) + (msPerDay - tza)" by simp
  moreover have "0 \<le> msPerDay - tza" "msPerDay - tza < msPerDay"
    using assms(3,4) by simp_all
  ultimately have z: "(- tza) div msPerDay = - 1" by (rule int_div_pos_eq)
  have "- msPerDay < tza" using assms(3) by (simp add: msPerDay_def)
  from getWorkSchedule_cycle [OF assms(1,2) this assms(4,5,6,7)] show ?thesis
    unfolding z by simp
qed

lemma getWorkSchedule_starts_with_start:
  assumes "valid_date d1 m1 y1" and "valid_date d2 m2 y2"
    and "- msPerDay < tza" and "tza \<le> 0"
    and "1 \<le> countWorkDays" and "0 \<le> countOffDays"
    and "MakeDay y1 (m1 - 1) d1 \<le> MakeDay y2 (m2 - 1) d2"
    and "LocalTZA H = (\<lambda>t isUTC. tza)"
  shows "\<exists>rest. getWorkSchedule H \<lparr>start = dmy d1 m1 y1, finish = dmy d2 m2 y2\<rparr>
           countWorkDays countOffDays = Some (dmy d1 m1 y1 # rest)"
proof -
  have "0 \<le> MakeDay y2 (m2 - 1) d2 - MakeDay y1 (m1 - 1) d1" using assms(7) by simp
  note f = cycle_days_first [OF assms(5,6) this]
  show ?thesis
    unfolding getWorkSchedule_at_or_west_of_UTC [OF assms(1-6,8)] f
    by (simp add: dmy_of_day_valid [OF assms(1)])
qed

lemma dmy_examples:
  "dmy 1 1 2024 = ''01-01-2024''" "dmy 15 1 2024 = ''15-01-2024''"
  "valid_date 1 1 2024" "valid_date 15 1 2024"
  "cycle_days (MakeDay 2024 (1 - 1) 15 - MakeDay 2024 (1 - 1) 1) 1 3 = [0, 4, 8, 12]"
  by code_simp+

section \<open>Lemmas: parsing, and the examples of the source\<close>

lemma TimeClip_Some: "TimeClip x = Some t \<Longrightarrow> t = x \<and> \<bar>t\<bar> \<le> 8640000000000000"
  by (auto simp: TimeClip_def split: if_splits)

lemma parseISO_clipped: "parseISO s = Some t \<Longrightarrow> \<bar>t\<bar> \<le> 8640000000000000"
  unfolding parseISO_def
  by (auto split: if_splits option.splits dest: TimeClip_Some)

lemma Date_parse_clipped: "Date_parse H s = Some t \<Longrightarrow> \<bar>t\<bar> \<le> 8640000000000000"
  unfolding Date_parse_def
  by (auto split: option.splits dest: TimeClip_Some parseISO_clipped)

text \<open>
  The time stamp of the specification is the day number of ECMAScript: the days of the
  years and of the months before a date add up to \<open>MakeDay\<close>.
\<close>

lemma DayFromYear_1970: "DayFromYear 1970 = 0"
  by (simp add: DayFromYear_def)

lemma years_from_epoch:
  assumes "1970 \<le> y"
  shows "sum_list (map DaysInYear [1970..y - 1]) = DayFromYear y"
  using assms
proof (induct y rule: int_ge_induct)
  case base
  show ?case by (simp add: DayFromYear_1970)
next
  case (step i)
  have "[1970..i + 1 - 1] = [1970..i - 1] @ [i]"
    using step(1) by (simp add: upto_rec2)
  then show ?case using step(2) by (simp add: DayFromYear_Suc)
qed

lemma years_to_epoch:
  assumes "y \<le> 1970"
  shows "- sum_list (map DaysInYear [y..1969]) = DayFromYear y"
  using assms
proof (induct y rule: int_le_induct)
  case base
  show ?case by (simp add: DayFromYear_1970)
next
  case (step i)
  have "[i - 1..1969] = (i - 1) # [i..1969]"
    using step(1) by (simp add: upto_rec1)
  moreover have "DayFromYear i = DayFromYear (i - 1) + DaysInYear (i - 1)"
    using DayFromYear_Suc[of "i - 1"] by simp
  ultimately show ?case using step(2) by simp
qed

lemma upto_1_11: "[1..11] = [1, 2, 3, 4, 5, 6, 7, 8, 9, 10, 11::int]"
  by (simp add: upto_rec1)

lemma months_before:
  assumes "0 \<le> m" and "m \<le> 11"
  shows "sum_list (map (DaysInMonth y) [1..m]) = DayFromMonth m (if DaysInYear y = 365 then 0 else 1)"
proof -
  note mcases = month_cases [OF assms]
  from mcases show ?thesis
    by (elim disjE) (simp_all add: upto_rec1 DayFromMonth_def DaysInMonth_def)
qed

lemma MakeDay_days_from_epoch:
  assumes "1 \<le> m" and "m \<le> 12"
  shows "MakeDay y (m - 1) d = days_from_epoch y m d"
proof -
  have mm: "(m - 1) div 12 = 0" "(m - 1) mod 12 = m - 1" using assms by simp_all
  have "0 \<le> m - 1" "m - 1 \<le> 11" using assms by simp_all
  note mb = months_before [OF this, of y]
  have yr: "(if 1970 \<le> y then sum_list (map DaysInYear [1970..y - 1])
             else - sum_list (map DaysInYear [y..1969])) = DayFromYear y"
    using years_from_epoch[of y] years_to_epoch[of y] by simp
  show ?thesis
    unfolding MakeDay_def Let_def mm days_from_epoch_def yr mb by simp
qed

lemma MakeTime_value: "MakeTime h mi sec ms = h * 3600000 + mi * 60000 + sec * 1000 + ms"
  by (simp add: MakeTime_def msPerHour_def msPerMinute_def msPerSecond_def)


text \<open>
  \<open>parseISO\<close> reads every ISO string of a valid instant as its time stamp, and reads
  nothing else.
\<close>

lemma iso_shape:
  fixes a b c d e f g :: string
  assumes "length a = 4" "length b = 2" "length c = 2" "length d = 2" "length e = 2"
    "length f = 2" "length g = 3"
    and "s = a @ ''-'' @ b @ ''-'' @ c @ ''T'' @ d @ '':'' @ e @ '':'' @ f @ ''.'' @ g @ ''Z''"
  shows "length s = 24 \<and> s ! 4 = CHR ''-'' \<and> s ! 7 = CHR ''-'' \<and> s ! 10 = CHR ''T''
         \<and> s ! 13 = CHR '':'' \<and> s ! 16 = CHR '':'' \<and> s ! 19 = CHR ''.'' \<and> s ! 23 = CHR ''Z''"
    and "take 4 s = a" "take 2 (drop 5 s) = b" "take 2 (drop 8 s) = c"
      "take 2 (drop 11 s) = d" "take 2 (drop 14 s) = e" "take 2 (drop 17 s) = f"
      "take 3 (drop 20 s) = g"
  using assms by (simp_all add: nth_append)

lemma iso_decompose:
  assumes "length s = 24"
  shows "s = take 4 s @ s ! 4 # take 2 (drop 5 s) @ s ! 7 # take 2 (drop 8 s) @ s ! 10
             # take 2 (drop 11 s) @ s ! 13 # take 2 (drop 14 s) @ s ! 16
             # take 2 (drop 17 s) @ s ! 19 # take 3 (drop 20 s) @ [s ! 23]"
proof -
  have c: "\<And>i. i < 24 \<Longrightarrow> drop i s = s ! i # drop (Suc i) s"
    using assms by (simp add: Cons_nth_drop_Suc)
  have t: "drop i s = take k (drop i s) @ drop (k + i) s" for i k
    using append_take_drop_id [of k "drop i s"] by simp
  have 0: "s = take 4 s @ drop 4 s" by simp
  have 1: "drop 4 s = s ! 4 # drop 5 s" using c[of 4] by simp
  have 2: "drop 5 s = take 2 (drop 5 s) @ drop 7 s" using t[of 5 2] by simp
  have 3: "drop 7 s = s ! 7 # drop 8 s" using c[of 7] by simp
  have 4: "drop 8 s = take 2 (drop 8 s) @ drop 10 s" using t[of 8 2] by simp
  have 5: "drop 10 s = s ! 10 # drop 11 s" using c[of 10] by simp
  have 6: "drop 11 s = take 2 (drop 11 s) @ drop 13 s" using t[of 11 2] by simp
  have 7: "drop 13 s = s ! 13 # drop 14 s" using c[of 13] by simp
  have 8: "drop 14 s = take 2 (drop 14 s) @ drop 16 s" using t[of 14 2] by simp
  have 9: "drop 16 s = s ! 16 # drop 17 s" using c[of 16] by simp
  have 10: "drop 17 s = take 2 (drop 17 s) @ drop 19 s" using t[of 17 2] by simp
  have 11: "drop 19 s = s ! 19 # drop 20 s" using c[of 19] by simp
  have 12: "drop 20 s = take 3 (drop 20 s) @ drop 23 s" using t[of 20 3] by simp
  have 13: "drop 23 s = [s ! 23]" using c[of 23] assms by simp
  show ?thesis
    by (subst 0, subst 1, subst 2, subst 3, subst 4, subst 5, subst 6, subst 7, subst 8,
        subst 9, subst 10, subst 11, subst 12, subst 13) (rule refl)
qed

lemma parseISO_iso_string:
  assumes "valid_instant y m d h mi sec ms"
  shows "parseISO (iso_string y m d h mi sec ms) = Some (ms_from_epoch y m d h mi sec ms)"
proof -
  from assms have v: "0 \<le> y" "y \<le> 9999" "1 \<le> m" "m \<le> 12" "1 \<le> d" "d \<le> DaysInMonth y m"
    "0 \<le> h" "h \<le> 23" "0 \<le> mi" "mi \<le> 59" "0 \<le> sec" "sec \<le> 59" "0 \<le> ms" "ms \<le> 999"
    by (simp_all add: valid_instant_def)
  have "d \<le> 31" using v(6) by (simp add: DaysInMonth_def split: if_splits)
  with v have nn: "0 \<le> m" "0 \<le> d" "y < 10 ^ 4" "m < 10 ^ 2" "d < 10 ^ 2" "h < 10 ^ 2"
    "mi < 10 ^ 2" "sec < 10 ^ 2" "ms < 10 ^ 3" by simp_all
  let ?s = "iso_string y m d h mi sec ms"
  have len: "length (zero_pad 4 y) = 4" "length (zero_pad 2 m) = 2" "length (zero_pad 2 d) = 2"
    "length (zero_pad 2 h) = 2" "length (zero_pad 2 mi) = 2" "length (zero_pad 2 sec) = 2"
    "length (zero_pad 3 ms) = 3"
    using v nn by (simp_all add: length_zero_pad)
  note sh = iso_shape [OF len iso_string_def]
  have num: "decimal_from 0 (zero_pad 4 y) = Some y" "decimal_from 0 (zero_pad 2 m) = Some m"
    "decimal_from 0 (zero_pad 2 d) = Some d" "decimal_from 0 (zero_pad 2 h) = Some h"
    "decimal_from 0 (zero_pad 2 mi) = Some mi" "decimal_from 0 (zero_pad 2 sec) = Some sec"
    "decimal_from 0 (zero_pad 3 ms) = Some ms"
    using v nn by (simp_all add: zero_pad_number)
  have b: "- 720000 \<le> MakeDay y (m - 1) d" "MakeDay y (m - 1) d \<le> 3000000"
    using MakeDay_calendar_bounds [OF v(1-6)] by simp_all
  have tm: "0 \<le> MakeTime h mi sec ms" "MakeTime h mi sec ms < 86400000"
    using v by (simp_all add: MakeTime_value)
  have "- 720000 * 86400000 \<le> MakeDay y (m - 1) d * 86400000"
    "MakeDay y (m - 1) d * 86400000 \<le> 3000000 * 86400000"
    using b by simp_all
  with tm have r: "\<bar>MakeDate (MakeDay y (m - 1) d) (MakeTime h mi sec ms)\<bar> \<le> 8640000000000000"
    by (simp add: MakeDate_def msPerDay_def)
  have val: "MakeDate (MakeDay y (m - 1) d) (MakeTime h mi sec ms)
      = ms_from_epoch y m d h mi sec ms"
    by (simp add: MakeDate_def msPerDay_def MakeTime_value ms_from_epoch_def
        MakeDay_days_from_epoch [OF v(3,4)])
  have "parseISO ?s = TimeClip (MakeDate (MakeDay y (m - 1) d) (MakeTime h mi sec ms))"
    unfolding parseISO_def sh(2-8) num using sh(1) v by simp
  with r val show ?thesis by (simp add: TimeClip_in_range)
qed

lemma parseISO_only_iso_strings:
  assumes "parseISO s = Some t"
  shows "\<exists>y m d h mi sec ms. valid_instant y m d h mi sec ms \<and> s = iso_string y m d h mi sec ms"
proof -
  from assms have sh: "length s = 24" "s ! 4 = CHR ''-''" "s ! 7 = CHR ''-''" "s ! 10 = CHR ''T''"
    "s ! 13 = CHR '':''" "s ! 16 = CHR '':''" "s ! 19 = CHR ''.''" "s ! 23 = CHR ''Z''"
    unfolding parseISO_def by (simp_all split: if_splits)
  from assms sh obtain y m d h mi sec ms where
    f: "decimal_from 0 (take 4 s) = Some y" "decimal_from 0 (take 2 (drop 5 s)) = Some m"
      "decimal_from 0 (take 2 (drop 8 s)) = Some d" "decimal_from 0 (take 2 (drop 11 s)) = Some h"
      "decimal_from 0 (take 2 (drop 14 s)) = Some mi"
      "decimal_from 0 (take 2 (drop 17 s)) = Some sec"
      "decimal_from 0 (take 3 (drop 20 s)) = Some ms"
    and r: "1 \<le> m" "m \<le> 12" "1 \<le> d" "d \<le> DaysInMonth y m" "h \<le> 23" "mi \<le> 59" "sec \<le> 59"
    unfolding parseISO_def by (simp split: option.splits if_splits)
  have l: "length (take 4 s) = 4" "length (take 2 (drop 5 s)) = 2" "length (take 2 (drop 8 s)) = 2"
    "length (take 2 (drop 11 s)) = 2" "length (take 2 (drop 14 s)) = 2"
    "length (take 2 (drop 17 s)) = 2" "length (take 3 (drop 20 s)) = 3"
    using sh(1) by simp_all
  note p = number_zero_pad [OF f(1) l(1)] number_zero_pad [OF f(2) l(2)]
    number_zero_pad [OF f(3) l(3)] number_zero_pad [OF f(4) l(4)] number_zero_pad [OF f(5) l(5)]
    number_zero_pad [OF f(6) l(6)] number_zero_pad [OF f(7) l(7)]
  have "y < 10 ^ 4" using p(1) l(1) by (intro zero_pad_bound [of 4 y "take 4 s"]) simp_all
  then have y: "y \<le> 9999" by simp
  have "ms < 10 ^ 3" using p(7) l(7) by (intro zero_pad_bound [of 3 ms "take 3 (drop 20 s)"]) simp_all
  then have ms: "ms \<le> 999" by simp
  have v: "valid_instant y m d h mi sec ms"
    using p r y ms by (simp add: valid_instant_def)
  have "s = iso_string y m d h mi sec ms"
    unfolding iso_string_def by (subst iso_decompose [OF sh(1)]) (simp add: p sh)
  with v show ?thesis by blast
qed

lemma parseISO_other_strings:
  assumes "\<And>y m d h mi sec ms. valid_instant y m d h mi sec ms \<Longrightarrow> s \<noteq> iso_string y m d h mi sec ms"
  shows "parseISO s = NaN"
proof (cases "parseISO s")
  case None
  then show ?thesis .
next
  case (Some t)
  from parseISO_only_iso_strings [OF this] assms show ?thesis by blast
qed

lemma iso_string_shape:
  assumes "valid_instant y m d h mi sec ms"
  shows "length (iso_string y m d h mi sec ms) = 24
         \<and> iso_string y m d h mi sec ms ! 4 = CHR ''-''"
proof -
  from assms have v: "0 \<le> y" "y \<le> 9999" "1 \<le> m" "m \<le> 12" "1 \<le> d" "d \<le> DaysInMonth y m"
    "0 \<le> h" "h \<le> 23" "0 \<le> mi" "mi \<le> 59" "0 \<le> sec" "sec \<le> 59" "0 \<le> ms" "ms \<le> 999"
    by (simp_all add: valid_instant_def)
  have "d \<le> 31" using v(6) by (simp add: DaysInMonth_def split: if_splits)
  with v have nn: "0 \<le> m" "0 \<le> d" "y < 10 ^ 4" "m < 10 ^ 2" "d < 10 ^ 2" "h < 10 ^ 2"
    "mi < 10 ^ 2" "sec < 10 ^ 2" "ms < 10 ^ 3" by simp_all
  have len: "length (zero_pad 4 y) = 4" "length (zero_pad 2 m) = 2" "length (zero_pad 2 d) = 2"
    "length (zero_pad 2 h) = 2" "length (zero_pad 2 mi) = 2" "length (zero_pad 2 sec) = 2"
    "length (zero_pad 3 ms) = 3"
    using v nn by (simp_all add: length_zero_pad)
  from iso_shape(1) [OF len iso_string_def] show ?thesis by simp
qed

lemma not_iso_string:
  assumes "length s \<noteq> 24 \<or> s ! 4 \<noteq> CHR ''-''" and "valid_instant y m d h mi sec ms"
  shows "s \<noteq> iso_string y m d h mi sec ms"
  using iso_string_shape [OF assms(2)] assms(1) by auto

lemma Date_parse_ISO: "parseISO s = Some t \<Longrightarrow> Date_parse H s = Some t"
  by (simp add: Date_parse_def)

lemma parse_examples:
  "Date_parse utc_host ''not a date'' = NaN"
  "Date_parse utc_host ''1995-12-04T00:12:00.000Z'' = Some 818035920000"
  "Date_parse utc_host ''1970-01-01T00:00:00.000Z'' = Some 0"
  by code_simp+

lemma formatDate_examples:
  "formatDate utc_host ''2024-02-01T15:00:00.000Z'' = ''2/1/2024, 3:00:00 PM''"
  "formatDate utc_host ''1999-01-05T02:20:00.000Z'' = ''1/5/1999, 2:20:00 AM''"
  "formatDate utc_host ''2010-12-15T22:59:00.000Z'' = ''12/15/2010, 10:59:00 PM''"
  "formatDate utc_host ''2024-02-01T12:00:00.000Z'' = ''2/1/2024, 12:00:00 PM''"
  by code_simp+

lemma getNextFridayThe13th_examples:
  "map_option (\<lambda>(r, h). h ! r)
     (getNextFridayThe13th utc_host [new_Date_local utc_host (Some 2024) (Some 0) (Some 13)] 0)
   = Some (new_Date_local utc_host (Some 2024) (Some 8) (Some 13))"
  "map_option (\<lambda>(r, h). h ! r)
     (getNextFridayThe13th utc_host [new_Date_local utc_host (Some 2023) (Some 1) (Some 1)] 0)
   = Some (new_Date_local utc_host (Some 2023) (Some 9) (Some 13))"
  by code_simp+

lemma getWorkSchedule_examples:
  "getWorkSchedule utc_host \<lparr>start = ''01-01-2024'', finish = ''15-01-2024''\<rparr> 1 3
   = Some [''01-01-2024'', ''05-01-2024'', ''09-01-2024'', ''13-01-2024'']"
  "getWorkSchedule utc_host \<lparr>start = ''01-01-2024'', finish = ''10-01-2024''\<rparr> 1 1
   = Some [''01-01-2024'', ''03-01-2024'', ''05-01-2024'', ''07-01-2024'', ''09-01-2024'']"
  by code_simp+

lemma getNextFriday_example:
  "getNextFriday utc_host [Some 1706918400000] 0 = (0, [Some 1707436800000])"
  "getNextFriday utc_host [Some 1707436800000] 0 = (0, [Some 1708041600000])"
  by code_simp+

lemma getNextFriday_examples:
  "getNextFriday utc_host [parseISO ''2024-02-03T00:00:00.000Z''] 0
   = (0, [parseISO ''2024-02-09T00:00:00.000Z''])"
  "getNextFriday utc_host [parseISO ''2024-02-13T00:00:00.000Z''] 0
   = (0, [parseISO ''2024-02-16T00:00:00.000Z''])"
  "getNextFriday utc_host [parseISO ''2024-02-16T00:00:00.000Z''] 0
   = (0, [parseISO ''2024-02-23T00:00:00.000Z''])"
  by code_simp+

text \<open>
  Two examples on a host whose offset changes. With the offsets of Europe/Berlin in
  spring 2024 (UTC+1 until 2024-03-31T01:00Z, UTC+2 from then on), \<open>getNextFriday\<close>
  takes Friday 2024-03-29T00:30Z to Thursday 2024-04-04T23:30Z, 7 days less 1 hour later.
  With those of autumn 2024 (UTC+2 until 2024-10-27T01:00Z, UTC+1 from then on),
  \<open>getWorkSchedule\<close> for the three days from 26-10-2024 to 28-10-2024 returns four
  dates: the day difference the source computes is 2 days and 1 hour, rounded up to 3.
\<close>

lemma getNextFriday_spring_example:
  "getNextFriday (host_changing 3600000 1711846800000 7200000) [Some 1711672200000] 0
     = (0, [Some 1712273400000])
   \<and> WeekDay 1711672200000 = 5 \<and> WeekDay 1712273400000 = 4
   \<and> 1712273400000 - 1711672200000 = 7 * msPerDay - msPerHour"
  by code_simp

lemma getWorkSchedule_autumn_example:
  "getWorkSchedule (host_changing 7200000 1729990800000 3600000)
     \<lparr>start = ''26-10-2024'', finish = ''28-10-2024''\<rparr> 5 0
   = Some [''25-10-2024'', ''26-10-2024'', ''27-10-2024'', ''28-10-2024'']"
  by code_simp

text \<open>
  The examples of the comment of \<open>dateToTimestamp\<close> are not in the ISO form: on every
  host whose \<^verbatim>\<open>Date.parse\<close> reads them as the comment says, so does the function.
\<close>

lemma dateToTimestamp_examples:
  "parseOther H ''01 Jan 1970 00:00:00 UTC'' = Some 0
     \<Longrightarrow> dateToTimestamp H ''01 Jan 1970 00:00:00 UTC'' = Some 0"
  "parseOther H ''04 Dec 1995 00:12:00 UTC'' = Some 818035920000
     \<Longrightarrow> dateToTimestamp H ''04 Dec 1995 00:12:00 UTC'' = Some 818035920000"
proof -
  have "parseISO ''01 Jan 1970 00:00:00 UTC'' = NaN" by code_simp
  then show "parseOther H ''01 Jan 1970 00:00:00 UTC'' = Some 0
     \<Longrightarrow> dateToTimestamp H ''01 Jan 1970 00:00:00 UTC'' = Some 0"
    by (simp add: dateToTimestamp_def new_Date_string_def new_Date_number_def Date_parse_def
        TimeClip_def)
  have "parseISO ''04 Dec 1995 00:12:00 UTC'' = NaN" by code_simp
  then show "parseOther H ''04 Dec 1995 00:12:00 UTC'' = Some 818035920000
     \<Longrightarrow> dateToTimestamp H ''04 Dec 1995 00:12:00 UTC'' = Some 818035920000"
    by (simp add: dateToTimestamp_def new_Date_string_def new_Date_number_def Date_parse_def
        TimeClip_def)
qed

lemma getNextFridayThe13th_second_call:
  "getNextFridayThe13th utc_host [Some 1726790400000] 0
     = Some (2, [Some 1726790400000, Some 1726790400000, Some 1726185600000])"
  "[Some 1726790400000, Some 1726790400000, Some (1726185600000::int)] ! 0
     = [Some 1726790400000] ! 0"
  by code_simp+

lemma timestamp_example:
  "valid_instant 1995 12 4 0 12 0 0"
  "iso_string 1995 12 4 0 12 0 0 = ''1995-12-04T00:12:00.000Z''"
  "ms_from_epoch 1995 12 4 0 12 0 0 = 818035920000"
  by code_simp+

lemma getNextFriday_touches_argument:
  "fst (getNextFriday H h date) = date
   \<and> length (snd (getNextFriday H h date)) = length h
   \<and> (\<forall>r. r \<noteq> date \<longrightarrow> snd (getNextFriday H h date) ! r = h ! r)"
  by (simp add: getNextFriday_def Let_def)

section \<open>The claims\<close>

text \<open>
  Dates are time values in the range of \<^verbatim>\<open>Date\<close> (at most 8640000000000000 ms from
  the epoch); a theorem on a function that moves a date assumes the moved date is still in
  that range. The examples of the source's comments are the witnesses.
\<close>

subsection \<open>C1: getWorkSchedule selects the dates of the repeating cycle\<close>

text \<open>
  C1. \<open>getWorkSchedule\<close>, for a period in \<^verbatim>\<open>DD-MM-YYYY\<close> format and positive counts,
  returns the dates of the period selected by the cycle that begins at \<open>start\<close>; for
  01-01-2024 to 15-01-2024 with 1 work day and 3 days off it returns 01-01-2024,
  05-01-2024, 09-01-2024, 13-01-2024.

  The source builds the start date with \<^verbatim>\<open>new Date(year, month, day)\<close>, which is local
  midnight, and reads every date back with the UTC getters. On a host whose local time is
  ahead of UTC, local midnight is the evening before in UTC, and every date of the result
  is one day early: at UTC+1 the result for the example starts on 31-12-2023.

  What the source does on a host that keeps one offset is lemma
  \<open>getWorkSchedule_cycle\<close>: for a period of valid dates the offsets emitted are
  \<open>cycle_days\<close> of the day difference (with no \<open>+ 1\<close>), as the claim says, and the
  day they are counted from is \<open>start\<close> when the offset is at or behind UTC
  (\<open>getWorkSchedule_at_or_west_of_UTC\<close>, with the two examples of the claim in
  \<open>getWorkSchedule_examples\<close>) and the day before \<open>start\<close> when it is ahead of UTC
  (\<open>getWorkSchedule_ahead_of_UTC\<close>). On a host whose offset changes between \<open>start\<close>
  and \<open>end\<close> the day difference itself can be one more than the days of the period
  (\<open>getWorkSchedule_autumn_example\<close>).
\<close>

theorem getWorkSchedule_east_of_UTC:
  "getWorkSchedule (host_at 3600000) \<lparr>start = ''01-01-2024'', finish = ''15-01-2024''\<rparr> 1 3
   = Some [''31-12-2023'', ''04-01-2024'', ''08-01-2024'', ''12-01-2024'']"
  by code_simp

subsection \<open>C2: getNextFridayThe13th\<close>

text \<open>
  C2. \<open>getNextFridayThe13th\<close> returns the first instant on or after its input that is
  the 13th of a month and a Friday.

  The search starts at the 13th of the input's own month, whether or not the input is
  past it. From 20 September 2024 (time value 1726790400000 on the UTC host) the object
  returned, at index 2 of the heap, is 13 September 2024 (1726185600000): a week before
  the input. (The two examples of the source's comment are as the claim says:
  \<open>getNextFridayThe13th_examples\<close>.)
\<close>

theorem getNextFridayThe13th_goes_back:
  "new_Date_local utc_host (Some 2024) (Some 8) (Some 20) = Some 1726790400000
   \<and> new_Date_local utc_host (Some 2024) (Some 8) (Some 13) = Some 1726185600000
   \<and> getNextFridayThe13th utc_host [Some 1726790400000] 0
       = Some (2, [Some 1726790400000, Some 1726790400000, Some 1726185600000])"
  by code_simp

subsection \<open>C3: formatDate\<close>

text \<open>
  C3. \<open>formatDate\<close> prints \<^verbatim>\<open>M/D/YYYY, h:mm:ss AM/PM\<close> in UTC, with 12 for noon
  (\<^verbatim>\<open>PM\<close>) and for midnight (\<^verbatim>\<open>AM\<close>).

  The source takes \<^verbatim>\<open>AM\<close> for the hours 1 to 11 only, so hour 0 is \<^verbatim>\<open>PM\<close>: half
  past midnight is printed as \<^verbatim>\<open>12:30:00 PM\<close>. (The examples of the source's comment,
  and noon, are as the claim says: \<open>formatDate_examples\<close>.)
\<close>

theorem formatDate_midnight_PM:
  "formatDate utc_host ''2024-02-01T00:30:00.000Z'' = ''2/1/2024, 12:30:00 PM''"
  by code_simp

subsection \<open>C4: which functions change their argument\<close>

text \<open>
  C4, as amended. Every exported function except \<open>getNextFriday\<close> leaves the
  \<^verbatim>\<open>Date\<close> it is given, and every other object that exists when it is called,
  unchanged (the heap it returns starts with the heap it was given), and gives the same
  result whenever it is given a \<^verbatim>\<open>Date\<close> with the same time value, on whatever heap
  \<open>g\<close>: in particular when it is called again on the same object, on the heap the first
  call has left. For \<open>getNextFridayThe13th\<close> the result is the time value of the new
  \<^verbatim>\<open>Date\<close> it returns, or that it does not return. \<open>getNextFriday\<close> overwrites the
  object it is given, and nothing else, and returns that same object. The other functions
  take strings and numbers, and a period that they only read.
\<close>

theorem Date_arguments_unchanged_but_getNextFriday:
  assumes "date < length h" and "date' < length g" and "g ! date' = h ! date"
  shows "snd (getTime H h date) = h
       \<and> fst (getTime H g date') = fst (getTime H h date)
       \<and> snd (getQuarter H h date) = h
       \<and> fst (getQuarter H g date') = fst (getQuarter H h date)
       \<and> snd (isLeapYear H h date) = h
       \<and> fst (isLeapYear H g date') = fst (isLeapYear H h date)
       \<and> take (length h) (snd (getWeekNumberByDate H h date)) = h
       \<and> fst (getWeekNumberByDate H g date') = fst (getWeekNumberByDate H h date)
       \<and> (\<forall>r h'. getNextFridayThe13th H h date = Some (r, h') \<longrightarrow>
             take (length h) h' = h \<and> length h \<le> r \<and> r < length h')
       \<and> map_option (\<lambda>y. snd y ! fst y) (getNextFridayThe13th H g date')
           = map_option (\<lambda>y. snd y ! fst y) (getNextFridayThe13th H h date)
       \<and> fst (getNextFriday H h date) = date
       \<and> length (snd (getNextFriday H h date)) = length h
       \<and> (\<forall>r. r \<noteq> date \<longrightarrow> snd (getNextFriday H h date) ! r = h ! r)"
proof -
  have 1: "snd (getTime H h date) = h \<and> fst (getTime H g date') = fst (getTime H h date)"
    by (simp add: getTime_def assms(3))
  have 2: "snd (getQuarter H h date) = h
      \<and> fst (getQuarter H g date') = fst (getQuarter H h date)"
    by (simp add: getQuarter_def Let_def assms(3))
  have 3: "snd (isLeapYear H h date) = h
      \<and> fst (isLeapYear H g date') = fst (isLeapYear H h date)"
    by (simp add: isLeapYear_def Let_def assms(3))
  have 4: "take (length h) (snd (getWeekNumberByDate H h date)) = h"
    by (rule getWeekNumberByDate_frame)
  have 5: "fst (getWeekNumberByDate H g date') = fst (getWeekNumberByDate H h date)"
    using assms by (rule getWeekNumberByDate_reads_argument)
  have 6: "\<forall>r h'. getNextFridayThe13th H h date = Some (r, h') \<longrightarrow>
             take (length h) h' = h \<and> length h \<le> r \<and> r < length h'"
    using getNextFridayThe13th_frame by blast
  have 7: "map_option (\<lambda>y. snd y ! fst y) (getNextFridayThe13th H g date')
           = map_option (\<lambda>y. snd y ! fst y) (getNextFridayThe13th H h date)"
    using assms(3) by (rule getNextFridayThe13th_reads_argument)
  have 8: "fst (getNextFriday H h date) = date
      \<and> length (snd (getNextFriday H h date)) = length h
      \<and> (\<forall>r. r \<noteq> date \<longrightarrow> snd (getNextFriday H h date) ! r = h ! r)"
    by (rule getNextFriday_touches_argument)
  from 1 2 3 4 5 6 7 8 show ?thesis by blast
qed

text \<open>
  The witness is a second call of \<open>getNextFridayThe13th\<close> on the same object: from 20
  September 2024 the first call leaves a heap of three objects and returns the third, 13
  September 2024; the second call, on that heap, returns a new object with that time
  value.
\<close>

theorem Date_arguments_unchanged_but_getNextFriday_witness:
  "(0::nat) < length [Some (1726790400000::int)]
   \<and> getNextFridayThe13th utc_host [Some 1726790400000] 0
       = Some (2, [Some 1726790400000, Some 1726790400000, Some 1726185600000])
   \<and> map_option (\<lambda>y. snd y ! fst y)
        (getNextFridayThe13th utc_host
           [Some 1726790400000, Some 1726790400000, Some 1726185600000] 0)
       = Some (Some 1726185600000)
   \<and> take (length [Some (1726790400000::int)])
        [Some 1726790400000, Some 1726790400000, Some 1726185600000]
       = [Some (1726790400000::int)]
   \<and> snd (getQuarter utc_host [Some 1726790400000] 0) = [Some 1726790400000]
   \<and> fst (getNextFriday utc_host [Some 1726790400000] 0) = 0"
proof -
  have a: "(0::nat) < length [Some (1726790400000::int)]" by simp
  have b: "(0::nat) < length [Some 1726790400000, Some 1726790400000, Some (1726185600000::int)]"
    by simp
  note e = getNextFridayThe13th_second_call
  note T = Date_arguments_unchanged_but_getNextFriday [OF a b e(2), of utc_host]
  from T have "map_option (\<lambda>y. snd y ! fst y)
        (getNextFridayThe13th utc_host
           [Some 1726790400000, Some 1726790400000, Some 1726185600000] 0)
      = map_option (\<lambda>y. snd y ! fst y) (getNextFridayThe13th utc_host [Some 1726790400000] 0)"
    by blast
  also have "\<dots> = Some (Some 1726185600000)" unfolding e(1) by simp
  finally have m: "map_option (\<lambda>y. snd y ! fst y)
        (getNextFridayThe13th utc_host
           [Some 1726790400000, Some 1726790400000, Some 1726185600000] 0)
      = Some (Some 1726185600000)" .
  from T e(1) have f: "take (length [Some (1726790400000::int)])
        [Some 1726790400000, Some 1726790400000, Some 1726185600000]
       = [Some (1726790400000::int)]" by blast
  from T have q: "snd (getQuarter utc_host [Some 1726790400000] 0) = [Some 1726790400000]"
    and n: "fst (getNextFriday utc_host [Some 1726790400000] 0) = 0" by blast+
  from a e(1) m f q n show ?thesis by blast
qed

text \<open>
  C4 as stated fails: \<open>getNextFriday\<close> changes the object it is given, and two calls on
  the same object return different dates (9 and 16 February 2024, from 3 February 2024).
\<close>

theorem getNextFriday_mutates_its_argument:
  "snd (getNextFriday utc_host [Some 1706918400000] 0) \<noteq> [Some 1706918400000]
   \<and> snd (getNextFriday utc_host (snd (getNextFriday utc_host [Some 1706918400000] 0)) 0) ! 0
       \<noteq> snd (getNextFriday utc_host [Some 1706918400000] 0) ! 0"
  by (simp add: getNextFriday_example)

subsection \<open>C5: getWeekNumberByDate\<close>

text \<open>
  C5. For every date, \<open>getWeekNumberByDate\<close> returns the week number where weeks start
  on Monday and week 1 is the week that holds 1 January (\<open>week_number\<close>), and that
  number is \<open>ceil((d + shift + 1) / 7)\<close> for the day \<open>d\<close> within the year and the
  \<open>shift\<close> of the weekday of 1 January: 6 for Sunday, 0 for Monday, the weekday less 1
  otherwise (\<open>week_shift\<close>). The date is any time value from which 1 January of its year
  is in the range of \<^verbatim>\<open>Date\<close>.
\<close>

theorem getWeekNumberByDate_week:
  assumes "date < length h" and "h ! date = Some t"
    and "- 8640000000000000 + 366 * msPerDay \<le> t" and "t \<le> 8640000000000000"
  shows "fst (getWeekNumberByDate H h date) = Some (week_number t)
         \<and> week_number t
             = \<lceil>(of_int (DayWithinYear t
                          + week_shift (WeekDay (DayFromYear (YearFromTime t) * msPerDay)) + 1)
                  :: rat) / 7\<rceil>"
proof -
  let ?j = "DayFromYear (YearFromTime t)"
  have 1: "fst (getWeekNumberByDate H h date) = Some (week_number t)"
    using assms by (rule getWeekNumberByDate_value)
  have "\<lceil>(of_int (DayWithinYear t + week_shift (WeekDay (?j * msPerDay)) + 1) :: rat) / of_int 7\<rceil>
      = - ((- (DayWithinYear t + (?j + 3) mod 7 + 1)) div 7)"
    unfolding ceiling_divide_eq_div WeekDay_day_start week_shift_monday by simp
  also have "\<dots> = (DayWithinYear t + (?j + 3) mod 7) div 7 + 1"
    by (simp only: ceil_div7)
  also have "\<dots> = week_number t"
    by (simp add: week_number_def Let_def DayWithinYear_def algebra_simps)
  finally have 2: "week_number t
      = \<lceil>(of_int (DayWithinYear t + week_shift (WeekDay (?j * msPerDay)) + 1) :: rat) / 7\<rceil>"
    by simp
  from 1 2 show ?thesis by blast
qed

theorem getWeekNumberByDate_week_witness:
  "new_Date_local utc_host (Some 2024) (Some 0) (Some 31) = Some 1706659200000
   \<and> fst (getWeekNumberByDate utc_host [Some 1706659200000] 0) = Some 5"
proof -
  have a: "(0::nat) < length [Some (1706659200000::int)]" by simp
  have b: "[Some (1706659200000::int)] ! 0 = Some 1706659200000" by simp
  have c: "- 8640000000000000 + 366 * msPerDay \<le> 1706659200000" by (simp add: msPerDay_def)
  have d: "(1706659200000::int) \<le> 8640000000000000" by simp
  have e: "new_Date_local utc_host (Some 2024) (Some 0) (Some 31) = Some 1706659200000"
    by code_simp
  from getWeekNumberByDate_week [OF a b c d, of utc_host] week_number_example e
  show ?thesis by simp
qed

subsection \<open>C6: the order and the bounds of the schedule\<close>

text \<open>
  C6. The list \<open>getWorkSchedule\<close> returns is in ascending order and every date of it is
  in the closed interval from \<open>start\<close> to \<open>end\<close>.

  By the defect of C1 (local midnight read back in UTC), on a host ahead of UTC the first
  date of the list is the day before \<open>start\<close>: 31-12-2023 for a period that starts on
  01-01-2024. On a host that keeps one offset the dates are emitted in ascending order
  (\<open>getWorkSchedule_cycle\<close>, \<open>cycle_days_ascending\<close>), and when that offset is at or
  behind UTC they are \<open>start\<close> plus offsets from 0 to the day difference
  (\<open>cycle_days_range\<close>, \<open>getWorkSchedule_at_or_west_of_UTC\<close>).
\<close>

theorem getWorkSchedule_before_start:
  "getWorkSchedule (host_at 3600000) \<lparr>start = ''01-01-2024'', finish = ''10-01-2024''\<rparr> 1 1
   = Some [''31-12-2023'', ''02-01-2024'', ''04-01-2024'', ''06-01-2024'', ''08-01-2024'']"
  by code_simp

subsection \<open>C7: getNextFriday\<close>

text \<open>
  C7. For every input date, \<open>getNextFriday\<close> returns a Friday that is 1 to 7 days after
  the input: the Friday of the same week when the weekday is before Friday, the Friday of
  the week after when it is Friday or Saturday, so 7 days from a Friday.

  The source reads the weekday of its argument in UTC (\<^verbatim>\<open>getUTCDay\<close>) and moves the
  date in local time (\<^verbatim>\<open>getDate\<close>, \<^verbatim>\<open>setDate\<close>): it adds the number of days that
  lead to Friday to the local day of the month and keeps the local time of day. Where the
  offset of local time changes in between, the time value does not move by whole days.
  With the offsets of Europe/Berlin in autumn 2024 (UTC+2 until 2024-10-27T01:00Z, UTC+1
  from then on), from Friday 2024-10-25T23:30Z (1729899000000; Saturday 26 October, 01:30,
  in local time) the source adds 7 days to the local date and leaves 2 November, 01:30
  local time, which is 2024-11-02T00:30Z (1730507400000): a Saturday, in UTC and in local
  time, 7 days and 1 hour after the input.

  Where the offset after the move is the offset before it, the object moves to the next
  Friday of UTC, 1 to 7 whole days later (lemmas \<open>getNextFriday_value\<close>,
  \<open>friday_diff_friday\<close>; the examples of the source's comment are
  \<open>getNextFriday_examples\<close>).
\<close>

theorem getNextFriday_across_offset_change:
  "getNextFriday (host_changing 7200000 1729990800000 3600000) [Some 1729899000000] 0
     = (0, [Some 1730507400000])
   \<and> WeekDay 1729899000000 = 5
   \<and> WeekDay 1730507400000 = 6
   \<and> WeekDay (LocalTime (host_changing 7200000 1729990800000 3600000) 1730507400000) = 6
   \<and> 1730507400000 - 1729899000000 = 7 * msPerDay + msPerHour"
  by code_simp

subsection \<open>C8: dateToTimestamp\<close>

text \<open>
  C8. For a string that is not parsable as a date \<open>dateToTimestamp\<close> returns NaN, and
  for a parsable string the integer count of milliseconds since 1970-01-01T00:00:00 UTC.

  For the ISO string of every valid instant the function returns the time stamp of the
  specification, \<open>ms_from_epoch\<close>, which counts the days year by year and month by
  month. A string that is the ISO string of no valid instant is the host's to read
  (ECMAScript leaves it to the implementation): the function returns NaN when the host's
  \<^verbatim>\<open>Date.parse\<close> answers NaN or a number outside the range of \<^verbatim>\<open>Date\<close>, and else
  the integer the host answers. The function has no operation that raises on a string:
  every result is a number.
\<close>

theorem dateToTimestamp_value:
  "(valid_instant y m d h mi sec ms \<longrightarrow>
      dateToTimestamp H (iso_string y m d h mi sec ms) = Some (ms_from_epoch y m d h mi sec ms))
   \<and> ((\<forall>y m d h mi sec ms. valid_instant y m d h mi sec ms \<longrightarrow>
          date \<noteq> iso_string y m d h mi sec ms) \<longrightarrow>
        dateToTimestamp H date
          = (case parseOther H date of None \<Rightarrow> NaN
             | Some t \<Rightarrow> if \<bar>t\<bar> \<le> 8640000000000000 then Some t else NaN))"
proof (intro conjI impI)
  assume "valid_instant y m d h mi sec ms"
  then have p: "parseISO (iso_string y m d h mi sec ms) = Some (ms_from_epoch y m d h mi sec ms)"
    by (rule parseISO_iso_string)
  from parseISO_clipped [OF p] have "\<bar>ms_from_epoch y m d h mi sec ms\<bar> \<le> 8640000000000000" .
  then show "dateToTimestamp H (iso_string y m d h mi sec ms)
      = Some (ms_from_epoch y m d h mi sec ms)"
    by (simp add: dateToTimestamp_def new_Date_string_def new_Date_number_def Date_parse_def p
        TimeClip_in_range)
next
  assume "\<forall>y m d h mi sec ms. valid_instant y m d h mi sec ms \<longrightarrow>
          date \<noteq> iso_string y m d h mi sec ms"
  then have "parseISO date = NaN" by (intro parseISO_other_strings) blast
  then show "dateToTimestamp H date
          = (case parseOther H date of None \<Rightarrow> NaN
             | Some t \<Rightarrow> if \<bar>t\<bar> \<le> 8640000000000000 then Some t else NaN)"
    by (simp add: dateToTimestamp_def new_Date_string_def new_Date_number_def Date_parse_def
        TimeClip_def split: option.splits)
qed

text \<open>
  The witness: an ISO string, the example of the source's comment on a host that reads
  it, and a string that no parser reads.
\<close>

theorem dateToTimestamp_value_witness:
  "valid_instant 1995 12 4 0 12 0 0
   \<and> dateToTimestamp (host_parsing [(''04 Dec 1995 00:12:00 UTC'', 818035920000)])
        ''1995-12-04T00:12:00.000Z'' = Some 818035920000
   \<and> dateToTimestamp (host_parsing [(''04 Dec 1995 00:12:00 UTC'', 818035920000)])
        ''04 Dec 1995 00:12:00 UTC'' = Some 818035920000
   \<and> dateToTimestamp (host_parsing [(''04 Dec 1995 00:12:00 UTC'', 818035920000)])
        ''not a date'' = NaN"
proof -
  let ?H = "host_parsing [(''04 Dec 1995 00:12:00 UTC'', 818035920000)]"
  note e = timestamp_example
  have 1: "dateToTimestamp ?H ''1995-12-04T00:12:00.000Z'' = Some 818035920000"
    using dateToTimestamp_value [of 1995 12 4 0 12 0 0 ?H] e by simp
  have n2: "\<forall>y m d h mi sec ms. valid_instant y m d h mi sec ms \<longrightarrow>
      ''04 Dec 1995 00:12:00 UTC'' \<noteq> iso_string y m d h mi sec ms"
    by (intro allI impI not_iso_string) simp
  have 2: "dateToTimestamp ?H ''04 Dec 1995 00:12:00 UTC'' = Some 818035920000"
    using dateToTimestamp_value [of _ _ _ _ _ _ _ ?H "''04 Dec 1995 00:12:00 UTC''"] n2
    by (simp add: host_parsing_def)
  have n3: "\<forall>y m d h mi sec ms. valid_instant y m d h mi sec ms \<longrightarrow>
      ''not a date'' \<noteq> iso_string y m d h mi sec ms"
    by (intro allI impI not_iso_string) simp
  have 3: "dateToTimestamp ?H ''not a date'' = NaN"
    using dateToTimestamp_value [of _ _ _ _ _ _ _ ?H "''not a date''"] n3
    by (simp add: host_parsing_def)
  from e(1) 1 2 3 show ?thesis by blast
qed

subsection \<open>C9: getWorkSchedule returns\<close>

text \<open>
  C9, as amended. For every period, at least one work day in the cycle and no negative
  number of days off, the loop of \<open>getWorkSchedule\<close> ends and the function returns: on
  every iteration of the outer loop the counter grows, by at least \<open>countWorkDays\<close>
  or else past \<open>diff\<close> (the inner loop was left by its \<^verbatim>\<open>break\<close>), which ends the
  outer loop.
\<close>

theorem getWorkSchedule_returns:
  assumes "1 \<le> countWorkDays" and "0 \<le> countOffDays"
  shows "(\<exists>workDaysArr. getWorkSchedule H period countWorkDays countOffDays = Some workDaysArr)
       \<and> (\<forall>startDateCopy diff c arr. num_le (Some c) diff \<longrightarrow>
            c < snd (work_block startDateCopy diff countWorkDays 0 c arr) + countOffDays
            \<and> (c + countWorkDays
                  \<le> snd (work_block startDateCopy diff countWorkDays 0 c arr) + countOffDays
               \<or> num_gt (Some (snd (work_block startDateCopy diff countWorkDays 0 c arr)
                                 + countOffDays)) diff))"
proof (intro conjI allI impI)
  show "\<exists>workDaysArr. getWorkSchedule H period countWorkDays countOffDays = Some workDaysArr"
    unfolding getWorkSchedule_def Let_def using assms by (rule schedule_loop_returns)
next
  fix startDateCopy diff c arr
  let ?c' = "snd (work_block startDateCopy diff countWorkDays 0 c arr)"
  have "c < ?c'" using assms(1) by (intro work_block_counter_less) simp
  with assms(2) show "c < ?c' + countOffDays" by simp
  have "c + (countWorkDays - 0) \<le> ?c' \<or> num_gt (Some ?c') diff"
    by (rule work_block_counter_progress)
  with assms(2) show "c + countWorkDays \<le> ?c' + countOffDays
      \<or> num_gt (Some (?c' + countOffDays)) diff"
    by (auto simp: num_gt_def num_lt_def split: option.splits)
qed

theorem getWorkSchedule_returns_witness:
  "(1::int) \<le> 5 \<and> (0::int) \<le> 0
   \<and> (\<exists>workDaysArr. getWorkSchedule utc_host \<lparr>start = ''01-01-2024'', finish = ''01-01-2024''\<rparr> 5 0
          = Some workDaysArr)
   \<and> num_gt (Some (snd (work_block (Some 1704067200000) (Some 0) 5 0 0 []) + 0)) (Some 0)"
proof -
  have a: "(1::int) \<le> 5" and b: "(0::int) \<le> 0" by simp_all
  note T = getWorkSchedule_returns [OF a b, of utc_host
      "\<lparr>start = ''01-01-2024'', finish = ''01-01-2024''\<rparr>"]
  have n: "num_le (Some 0) (Some 0)" by (simp add: num_le_def)
  have v: "snd (work_block (Some 1704067200000) (Some 0) 5 0 0 []) = 1" by code_simp
  from T have "(0::int) + 5 \<le> snd (work_block (Some 1704067200000) (Some 0) 5 0 0 []) + 0
      \<or> num_gt (Some (snd (work_block (Some 1704067200000) (Some 0) 5 0 0 []) + 0)) (Some 0)"
    using n by blast
  with v have "num_gt (Some (snd (work_block (Some 1704067200000) (Some 0) 5 0 0 []) + 0)) (Some 0)"
    by simp
  with T show ?thesis by simp
qed

text \<open>
  C9 as stated fails: the counter does not grow by \<open>countWorkDays\<close> on an iteration the
  \<^verbatim>\<open>break\<close> cuts short. For a period of one day, 5 work days and no day off, the only
  iteration takes the counter from 0 to 1.
\<close>

theorem work_block_short_step:
  "getWorkSchedule utc_host \<lparr>start = ''01-01-2024'', finish = ''01-01-2024''\<rparr> 5 0
     = Some [''01-01-2024'']
   \<and> new_Date_local utc_host (Some 2024) (Some 0) (Some 1) = Some 1704067200000
   \<and> \<not> (0 + 5 \<le> snd (work_block (Some 1704067200000) (Some 0) 5 0 0 []) + 0)"
  by code_simp

subsection \<open>C10: the schedule starts with the start date\<close>

text \<open>
  C10. The list \<open>getWorkSchedule\<close> returns is not empty and its first element is the
  \<open>start\<close> of the period.

  By the defect of C1, on a host ahead of UTC the first element is the day before: at
  UTC+3, for a period that starts on 10-03-2024, it is 09-03-2024. On a host that keeps
  one offset, at or behind UTC, the first element is \<open>start\<close>
  (\<open>getWorkSchedule_starts_with_start\<close>).
\<close>

theorem getWorkSchedule_first_not_start:
  "getWorkSchedule (host_at 10800000) \<lparr>start = ''10-03-2024'', finish = ''12-03-2024''\<rparr> 2 5
   = Some [''09-03-2024'', ''10-03-2024'']"
  by code_simp

end
